theory Spec2Isabelle
  imports Main "HOL-Library.Word"
begin

unbundle bit_operations_syntax

section \<open>Python strings\<close>

text \<open>
  A Python \<open>str\<close> is a sequence of Unicode code points, so it is modelled as a list of
  natural numbers (one per code point). ASCII literals of the script are written with
  \<open>u\<close>; the accented letters of the French messages are spliced in by code point.
\<close>

type_synonym ustr = "nat list"

definition u :: "string \<Rightarrow> ustr" where
  "u s = map of_char s"

text \<open>
  \<open>str.isspace\<close>, the class \<open>\s\<close> of \<open>re\<close> on \<open>str\<close> patterns and the characters removed
  by \<open>str.strip()\<close> are one and the same set of code points.
\<close>

definition isspace :: "nat \<Rightarrow> bool" where
  "isspace c =
     ((0x09 \<le> c \<and> c \<le> 0x0D) \<or> (0x1C \<le> c \<and> c \<le> 0x20) \<or> c = 0x85 \<or> c = 0xA0 \<or>
      c = 0x1680 \<or> (0x2000 \<le> c \<and> c \<le> 0x200A) \<or> c = 0x2028 \<or> c = 0x2029 \<or>
      c = 0x202F \<or> c = 0x205F \<or> c = 0x3000)"

text \<open>\<open>s.replace(old, new)\<close> for one-character \<open>old\<close> and \<open>new\<close>.\<close>

definition replace_char :: "nat \<Rightarrow> nat \<Rightarrow> ustr \<Rightarrow> ustr" where
  "replace_char old new s = map (\<lambda>c. if c = old then new else c) s"

text \<open>
  \<open>re.sub(r"\s+", " ", s)\<close>: every maximal run of whitespace becomes one U+0020.
\<close>

function collapse_ws :: "ustr \<Rightarrow> ustr" where
  "collapse_ws [] = []"
| "collapse_ws (c # cs) =
     (if isspace c then 0x20 # collapse_ws (dropWhile isspace cs) else c # collapse_ws cs)"
  by pat_completeness auto
termination
  by (relation "measure length") (auto simp: length_dropWhile_le less_Suc_eq_le)

text \<open>
  \<open>s.strip()\<close>: whitespace is dropped at the left end, then at the right end of what
  remains.
\<close>

fun rstrip :: "ustr \<Rightarrow> ustr" where
  "rstrip [] = []"
| "rstrip (c # cs) = (if isspace c \<and> rstrip cs = [] then [] else c # rstrip cs)"

definition py_strip :: "ustr \<Rightarrow> ustr" where
  "py_strip s = rstrip (dropWhile isspace s)"

text \<open>
  The runtime the script runs on. \<open>str.lower\<close> reads the Unicode character database of
  the interpreter (full lower-case mapping, the properties Cased and Case_Ignorable), and
  the text of a document is extracted by BeautifulSoup; neither is part of the script,
  so they are parameters of the model.
\<close>

record platform =
  to_lower_full :: "nat \<Rightarrow> ustr"
  is_cased :: "nat \<Rightarrow> bool"
  is_case_ignorable :: "nat \<Rightarrow> bool"
  get_text :: "ustr \<Rightarrow> ustr"

text \<open>
  \<open>str.lower\<close> maps each code point through the table, except U+03A3 (capital sigma),
  which becomes U+03C2 in final position (after a cased letter, not before one, case-ignorable
  characters skipped on both sides) and U+03C3 otherwise. \<open>seen\<close> is the part of the
  string already passed, nearest character first.
\<close>

definition handle_capital_sigma :: "platform \<Rightarrow> ustr \<Rightarrow> ustr \<Rightarrow> nat" where
  "handle_capital_sigma P seen rest =
     (case dropWhile (is_case_ignorable P) seen of
        [] \<Rightarrow> 0x3C3
      | b # _ \<Rightarrow>
          if is_cased P b then
            (case dropWhile (is_case_ignorable P) rest of
               [] \<Rightarrow> 0x3C2
             | a # _ \<Rightarrow> if is_cased P a then 0x3C3 else 0x3C2)
          else 0x3C3)"

fun lower_from :: "platform \<Rightarrow> ustr \<Rightarrow> ustr \<Rightarrow> ustr" where
  "lower_from P seen [] = []"
| "lower_from P seen (c # cs) =
     (if c = 0x3A3 then [handle_capital_sigma P seen cs] else to_lower_full P c)
       @ lower_from P (c # seen) cs"

definition py_lower :: "platform \<Rightarrow> ustr \<Rightarrow> ustr" where
  "py_lower P s = lower_from P [] s"

text \<open>\<open>text in s\<close> on strings: \<open>text\<close> occurs in \<open>s\<close> as a contiguous substring.\<close>

fun startswith :: "ustr \<Rightarrow> ustr \<Rightarrow> bool" where
  "startswith s [] = True"
| "startswith [] (p # ps) = False"
| "startswith (c # cs) (p # ps) = (c = p \<and> startswith cs ps)"

fun py_in :: "ustr \<Rightarrow> ustr \<Rightarrow> bool" where
  "py_in pat [] = (pat = [])"
| "py_in pat (c # cs) = (startswith (c # cs) pat \<or> py_in pat cs)"

section \<open>The classifier\<close>

definition NEGATIVE_PHRASE_FULL :: ustr where
  "NEGATIVE_PHRASE_FULL =
     u '' Aucun rendez-vous n'' @ [0x27] @ u ''est actuellement disponible.'' @
     u '' De nouveaux rendez-vous seront propos'' @ [0xE9] @
     u ''s prochainement sur cette page.''"

definition normalize_text :: "platform \<Rightarrow> ustr \<Rightarrow> ustr" where
  "normalize_text P s =
     (let s1 = replace_char 0xA0 0x20 s;
          s2 = replace_char 0x202F 0x20 s1;
          s3 = replace_char 0x2019 0x27 s2;
          s4 = replace_char 0x2018 0x27 s3;
          s5 = collapse_ws s4
      in py_lower P (py_strip s5))"

definition msg_negative :: ustr where
  "msg_negative = u ''Message n'' @ [0xE9] @ u ''gatif exact d'' @ [0xE9] @ u ''tect'' @ [0xE9]"

definition msg_absent :: ustr where
  "msg_absent = u ''Phrase n'' @ [0xE9] @ u ''gative absente''"

definition parse_availability :: "platform \<Rightarrow> ustr \<Rightarrow> bool \<times> ustr" where
  "parse_availability P html =
     (let raw_text = get_text P html;
          text = normalize_text P raw_text;
          neg_full_norm = normalize_text P NEGATIVE_PHRASE_FULL
      in if py_in neg_full_norm text then (False, msg_negative) else (True, msg_absent))"

section \<open>The fingerprint\<close>

text \<open>
  \<open>hash\<close> on a \<open>str\<close> is the keyed string hash of the interpreter: SipHash-1-3 over the
  bytes of the string's internal representation, under a 128-bit secret that is drawn when
  the interpreter starts (unless \<open>PYTHONHASHSEED\<close> fixes it). The secret is therefore a
  value of the running process.
\<close>

type_synonym u64 = "64 word"
type_synonym hash_secret = "u64 \<times> u64"
type_synonym sip_state = "u64 \<times> u64 \<times> u64 \<times> u64"

definition half_round :: "u64 \<Rightarrow> u64 \<Rightarrow> u64 \<Rightarrow> u64 \<Rightarrow> nat \<Rightarrow> nat \<Rightarrow> sip_state" where
  "half_round a b c d s t =
     (let a1 = a + b;
          c1 = c + d;
          b1 = word_rotl s b XOR a1;
          d1 = word_rotl t d XOR c1;
          a2 = word_rotl 32 a1
      in (a2, b1, c1, d1))"

definition single_round :: "sip_state \<Rightarrow> sip_state" where
  "single_round v =
     (case v of (v0, v1, v2, v3) \<Rightarrow>
        (case half_round v0 v1 v2 v3 13 16 of (a0, a1, a2, a3) \<Rightarrow>
           (case half_round a2 a1 a0 a3 17 21 of (b2, b1, b0, b3) \<Rightarrow> (b0, b1, b2, b3))))"

text \<open>Up to eight bytes read as a little-endian integer.\<close>

fun le64 :: "nat list \<Rightarrow> u64" where
  "le64 [] = 0"
| "le64 (b # bs) = of_nat b OR push_bit 8 (le64 bs)"

function sip_blocks :: "sip_state \<Rightarrow> nat list \<Rightarrow> sip_state \<times> nat list" where
  "sip_blocks v src =
     (if 8 \<le> length src then
        (case v of (v0, v1, v2, v3) \<Rightarrow>
           (let mi = le64 (take 8 src) in
            (case single_round (v0, v1, v2, v3 XOR mi) of (a0, a1, a2, a3) \<Rightarrow>
               sip_blocks (a0 XOR mi, a1, a2, a3) (drop 8 src))))
      else (v, src))"
  by pat_completeness auto
termination
  by (relation "measure (\<lambda>(v, src). length src)") auto

declare sip_blocks.simps [simp del]

definition siphash13 :: "u64 \<Rightarrow> u64 \<Rightarrow> nat list \<Rightarrow> u64" where
  "siphash13 k0 k1 src =
     (let b0 = push_bit 56 (of_nat (length src));
          v0 = k0 XOR 0x736f6d6570736575;
          v1 = k1 XOR 0x646f72616e646f6d;
          v2 = k0 XOR 0x6c7967656e657261;
          v3 = k1 XOR 0x7465646279746573
      in (case sip_blocks (v0, v1, v2, v3) src of ((a0, a1, a2, a3), tail) \<Rightarrow>
            (let b = b0 OR le64 tail in
             (case single_round (a0, a1, a2, a3 XOR b) of (c0, c1, c2, c3) \<Rightarrow>
                (case single_round (single_round (single_round (c0 XOR b, c1, c2 XOR 0xff, c3)))
                 of (d0, d1, d2, d3) \<Rightarrow> (d0 XOR d1) XOR (d2 XOR d3))))))"

text \<open>
  The bytes of a \<open>str\<close>: one, two or four bytes per code point (little-endian), the
  narrowest width that holds every code point of the string.
\<close>

definition str_bytes :: "ustr \<Rightarrow> nat list" where
  "str_bytes s =
     (let kind = (if list_all (\<lambda>c. c < 0x100) s then 1
                  else if list_all (\<lambda>c. c < 0x10000) s then 2 else (4::nat))
      in concat (map (\<lambda>c. map (\<lambda>i. (c div 256 ^ i) mod 256) [0..<kind]) s))"

definition py_hash :: "hash_secret \<Rightarrow> ustr \<Rightarrow> int" where
  "py_hash secret s =
     (if s = [] then 0
      else (let x = sint (siphash13 (fst secret) (snd secret) (str_bytes s))
            in if x = - 1 then - 2 else x))"

text \<open>\<open>str\<close> of an integer: its decimal digits, after a minus sign when negative.\<close>

function digits :: "int \<Rightarrow> ustr" where
  "digits n = (if n < 10 then [nat (0x30 + n)] else digits (n div 10) @ [nat (0x30 + n mod 10)])"
  by pat_completeness auto
termination
  by (relation "measure nat") auto

definition py_str :: "int \<Rightarrow> ustr" where
  "py_str i = (if i < 0 then 0x2D # digits (- i) else digits i)"

definition compute_signature :: "hash_secret \<Rightarrow> ustr \<Rightarrow> ustr" where
  "compute_signature secret html = py_str (py_hash secret (take 50000 html))"

section \<open>Effects: log, state file, mail\<close>

text \<open>
  An exception is either an instance of \<open>Exception\<close>, with its message, or the cancellation
  of the task from outside (\<open>KeyboardInterrupt\<close>, \<open>CancelledError\<close>), which
  \<open>except Exception\<close> does not catch.
\<close>

datatype py_exc = Exc ustr | Cancelled

text \<open>
  What the script does to the outside is recorded in a trace: a call of \<open>log\<close>, a call
  of \<open>send_email\<close>, a message handed over by \<open>sendmail\<close> (sender, recipient, subject,
  body), a sleep.
\<close>

datatype event =
    Log ustr
  | SendEmailCalled ustr ustr
  | Sendmail ustr ustr ustr ustr
  | Sleep int

record world =
  last_signature :: ustr
  state_file :: "ustr option"
  trace :: "event list"

text \<open>
  What the outside answers during one iteration of the loop: the outcome of the fetch,
  the environment variables, the outcome of \<open>int(os.getenv("SMTP_PORT", "587"))\<close> (the
  message of the \<open>ValueError\<close>, or the number), of the SMTP session, of the write to the
  state file, the random jitter, and whether the sleep is cancelled.
\<close>

datatype smtp_outcome = SmtpOk | SmtpFailsBeforeSend ustr | SmtpFailsAfterSend ustr

datatype write_outcome = WriteOk | OpenFails ustr | WriteFails ustr nat

datatype read_outcome = ReadOk | ReadFails ustr

datatype os_family = Posix | Windows

record cycle_env =
  fetch_result :: "py_exc + ustr"
  env_host :: "ustr option"
  env_port :: "ustr + int"
  env_user :: "ustr option"
  env_pass :: "ustr option"
  env_to :: "ustr option"
  smtp_result :: smtp_outcome
  write_result :: write_outcome
  os :: os_family
  jitter :: int
  sleep_cancelled :: bool

text \<open>
  \<open>log\<close> prints the line and appends it to the log file; a failure of the append is
  swallowed by \<open>log\<close> itself. Printing to the process output is taken to succeed, so
  that a call of \<open>log\<close> always returns; the time stamp in front of the message is left
  out of the trace.
\<close>

definition log :: "ustr \<Rightarrow> world \<Rightarrow> world" where
  "log msg w = w\<lparr>trace := trace w @ [Log msg]\<rparr>"

text \<open>
  Text-mode files: on writing, \<open>\n\<close> becomes the line separator of the system; on
  reading, \<open>\r\n\<close> and a lone \<open>\r\<close> become \<open>\n\<close>. A lone surrogate has no UTF-8
  encoding.
\<close>

definition linesep :: "os_family \<Rightarrow> ustr" where
  "linesep f = (case f of Posix \<Rightarrow> [0x0A] | Windows \<Rightarrow> [0x0D, 0x0A])"

definition to_disk :: "os_family \<Rightarrow> ustr \<Rightarrow> ustr" where
  "to_disk f s = concat (map (\<lambda>c. if c = 0x0A then linesep f else [c]) s)"

fun universal_newlines :: "ustr \<Rightarrow> ustr" where
  "universal_newlines [] = []"
| "universal_newlines [c] = [if c = 0x0D then 0x0A else c]"
| "universal_newlines (c # d # cs) =
     (if c = 0x0D \<and> d = 0x0A then 0x0A # universal_newlines cs
      else if c = 0x0D then 0x0A # universal_newlines (d # cs)
      else c # universal_newlines (d # cs))"

definition is_surrogate :: "nat \<Rightarrow> bool" where
  "is_surrogate c = (0xD800 \<le> c \<and> c \<le> 0xDFFF)"

text \<open>
  \<open>Path.write_text\<close>: the file is opened for writing, which empties it, then the text is
  encoded and written. The result is the message of the exception raised, if any, and
  the file as it is left.
\<close>

definition write_text :: "os_family \<Rightarrow> write_outcome \<Rightarrow> ustr \<Rightarrow> ustr option \<Rightarrow> ustr option \<times> ustr option" where
  "write_text f wo s file =
     (case wo of
        OpenFails m \<Rightarrow> (Some m, file)
      | WriteFails m n \<Rightarrow>
          if list_ex is_surrogate s then (Some (u ''UnicodeEncodeError''), Some [])
          else (Some m, Some (take n (to_disk f s)))
      | WriteOk \<Rightarrow>
          if list_ex is_surrogate s then (Some (u ''UnicodeEncodeError''), Some [])
          else (None, Some (to_disk f s)))"

definition load_state :: "read_outcome \<Rightarrow> world \<Rightarrow> ustr" where
  "load_state ro w =
     (case state_file w of
        None \<Rightarrow> []
      | Some content \<Rightarrow>
          (case ro of
             ReadFails m \<Rightarrow> []
           | ReadOk \<Rightarrow> py_strip (universal_newlines content)))"

definition save_state :: "cycle_env \<Rightarrow> ustr \<Rightarrow> world \<Rightarrow> world" where
  "save_state E s w = w\<lparr>state_file := snd (write_text (os E) (write_result E) s (state_file w))\<rparr>"

definition msg_config_incomplete :: ustr where
  "msg_config_incomplete =
     u ''Config email incompl'' @ [0xE8] @ u ''te. Aucune alerte envoy'' @ [0xE9] @ u ''e.''"

definition msg_email_sent :: ustr where
  "msg_email_sent = u ''Email d'' @ [0x2019] @ u ''alerte envoy'' @ [0xE9] @ u ''.''"

text \<open>Truth value of an optional string: \<open>None\<close> and the empty string are false.\<close>

definition truthy :: "ustr option \<Rightarrow> bool" where
  "truthy x = (case x of None \<Rightarrow> False | Some s \<Rightarrow> s \<noteq> [])"

text \<open>
  The test \<open>all([host, port, user, pwd, to_addr])\<close>, and the value of a variable that
  passed it.
\<close>

definition config_complete :: "cycle_env \<Rightarrow> int \<Rightarrow> bool" where
  "config_complete E port =
     (truthy (env_host E) \<and> port \<noteq> 0 \<and> truthy (env_user E) \<and> truthy (env_pass E) \<and>
      truthy (env_to E))"

definition str_of :: "ustr option \<Rightarrow> ustr" where
  "str_of x = (case x of None \<Rightarrow> [] | Some s \<Rightarrow> s)"

text \<open>
  \<open>send_email\<close> returns the exception it raises, if any, and the world it leaves.
\<close>

definition send_email :: "cycle_env \<Rightarrow> ustr \<Rightarrow> ustr \<Rightarrow> world \<Rightarrow> py_exc option \<times> world" where
  "send_email E subject body w0 =
     (let w = w0\<lparr>trace := trace w0 @ [SendEmailCalled subject body]\<rparr> in
      case env_port E of
        Inl m \<Rightarrow> (Some (Exc m), w)
      | Inr port \<Rightarrow>
          if \<not> config_complete E port then (None, log msg_config_incomplete w)
          else
            (let user = str_of (env_user E);
                 to_addr = str_of (env_to E);
                 delivered = w\<lparr>trace := trace w @ [Sendmail user to_addr subject body]\<rparr>
             in case smtp_result E of
                  SmtpFailsBeforeSend m \<Rightarrow> (Some (Exc m), w)
                | SmtpFailsAfterSend m \<Rightarrow> (Some (Exc m), delivered)
                | SmtpOk \<Rightarrow> (None, log msg_email_sent delivered)))"

section \<open>The poll loop\<close>

definition URL :: ustr where
  "URL = u ''https://rdvdaj.apps.paris.fr/rdvdaj/jsp/site/Portal.jsp'' @
         u ''?page=appointmentsearch&view=search&category=C_Conciliateur''"

definition BASE_POLL_SEC :: int where
  "BASE_POLL_SEC = 45"

definition alert_subject :: ustr where
  "alert_subject = u ''Alerte rendez-vous conciliateur Paris''"

definition alert_body :: "ustr \<Rightarrow> ustr" where
  "alert_body detail =
     u ''Des indices de cr'' @ [0xE9] @ u ''neaux viennent d'' @ [0x2019] @ u ''appara'' @ [0xEE]
       @ u ''tre.'' @ [0x0A] @
     u ''D'' @ [0xE9] @ u ''tails: '' @ detail @ [0x0A] @
     u ''Page: '' @ URL @ [0x0A, 0x0A] @
     u ''Ouvre la page et r'' @ [0xE9] @ u ''serve sans attendre.''"

definition msg_already_signaled :: ustr where
  "msg_already_signaled =
     u ''Disponibilit'' @ [0xE9] @ u ''s d'' @ [0xE9] @ u ''j'' @ [0xE0] @ u '' signal'' @ [0xE9]
       @ u ''es. Pas de nouvel email.''"

definition msg_no_availability :: ustr where
  "msg_no_availability =
     u ''Aucune disponibilit'' @ [0xE9] @ u '' d'' @ [0xE9] @ u ''tect'' @ [0xE9] @ u ''e.''"

definition msg_started :: ustr where
  "msg_started = u ''Surveillance d'' @ [0xE9] @ u ''marr'' @ [0xE9] @ u ''e''"

text \<open>The body of the \<open>try\<close> in \<open>main\<close>: the exception it raises, if any, and the world.\<close>

definition loop_body :: "platform \<Rightarrow> hash_secret \<Rightarrow> cycle_env \<Rightarrow> world \<Rightarrow> py_exc option \<times> world" where
  "loop_body P secret E w =
     (case fetch_result E of
        Inl e \<Rightarrow> (Some e, w)
      | Inr html \<Rightarrow>
          (case parse_availability P html of (has_slots, detail) \<Rightarrow>
             (let signature = compute_signature secret html in
              if has_slots then
                if signature \<noteq> last_signature w then
                  (case send_email E alert_subject (alert_body detail) w of
                     (Some e, w1) \<Rightarrow> (Some e, w1)
                   | (None, w1) \<Rightarrow> (None, (save_state E signature w1)\<lparr>last_signature := signature\<rparr>))
                else (None, log msg_already_signaled w)
              else (None, log msg_no_availability w))))"

definition sleep :: "cycle_env \<Rightarrow> world \<Rightarrow> py_exc option \<times> world" where
  "sleep E w =
     (let sleep_for = BASE_POLL_SEC + jitter E;
          sleep_for = (if sleep_for < 20 then 20 else sleep_for)
      in (if sleep_cancelled E then Some Cancelled else None,
          w\<lparr>trace := trace w @ [Sleep sleep_for]\<rparr>))"

text \<open>One iteration of \<open>while True\<close>: the \<open>try\<close>, its handler, the sleep.\<close>

definition cycle :: "platform \<Rightarrow> hash_secret \<Rightarrow> cycle_env \<Rightarrow> world \<Rightarrow> py_exc option \<times> world" where
  "cycle P secret E w =
     (case loop_body P secret E w of
        (Some Cancelled, w1) \<Rightarrow> (Some Cancelled, w1)
      | (Some (Exc m), w1) \<Rightarrow> sleep E (log (u ''Erreur: '' @ m) w1)
      | (None, w1) \<Rightarrow> sleep E w1)"

text \<open>
  The loop has no exit of its own. It is run here against the answers of the outside for
  as many iterations as there are answers; it stops early only when an exception leaves
  an iteration.
\<close>

fun run :: "platform \<Rightarrow> hash_secret \<Rightarrow> cycle_env list \<Rightarrow> world \<Rightarrow> py_exc option \<times> world" where
  "run P secret [] w = (None, w)"
| "run P secret (E # Es) w =
     (case cycle P secret E w of
        (Some e, w1) \<Rightarrow> (Some e, w1)
      | (None, w1) \<Rightarrow> run P secret Es w1)"

text \<open>The start of \<open>main\<close>, before the loop, on a given state file.\<close>

definition startup :: "read_outcome \<Rightarrow> ustr option \<Rightarrow> world" where
  "startup ro file =
     (let w = log msg_started \<lparr>last_signature = [], state_file = file, trace = []\<rparr>
      in w\<lparr>last_signature := load_state ro w\<rparr>)"

text \<open>What a trace says was sent, and how often \<open>send_email\<close> was called.\<close>

fun is_sendmail :: "event \<Rightarrow> bool" where
  "is_sendmail (Sendmail a b c d) = True"
| "is_sendmail e = False"

fun is_call :: "event \<Rightarrow> bool" where
  "is_call (SendEmailCalled a b) = True"
| "is_call e = False"

fun is_log :: "event \<Rightarrow> bool" where
  "is_log (Log m) = True"
| "is_log e = False"

fun is_sleep :: "event \<Rightarrow> bool" where
  "is_sleep (Sleep n) = True"
| "is_sleep e = False"

definition sent :: "world \<Rightarrow> event list" where
  "sent w = filter is_sendmail (trace w)"

definition calls :: "world \<Rightarrow> event list" where
  "calls w = filter is_call (trace w)"

section \<open>Notions used in the proofs\<close>

text \<open>
  A character that normalization leaves alone: not whitespace, not one of the two curly
  quotes. A string is tidy when it consists of runs of such characters separated by single
  U+0020, with none at either end: the shape of every normalized text. A string is
  pre-tidy when, in addition, single U+0020 may stand at its ends: the shape left by the
  collapse of whitespace.
\<close>

definition okc :: "nat \<Rightarrow> bool" where
  "okc c = (\<not> isspace c \<and> c \<noteq> 0x2018 \<and> c \<noteq> 0x2019)"

fun tidy :: "ustr \<Rightarrow> bool" where
  "tidy [] = True"
| "tidy [c] = okc c"
| "tidy (c # d # cs) = (okc c \<and> (if d = 0x20 then cs \<noteq> [] \<and> tidy cs else tidy (d # cs)))"

fun pretidy :: "ustr \<Rightarrow> bool" where
  "pretidy [] = True"
| "pretidy [c] = (c = 0x20 \<or> okc c)"
| "pretidy (c # d # cs) = ((c = 0x20 \<and> \<not> isspace d \<or> okc c) \<and> pretidy (d # cs))"

text \<open>
  What the proofs need of the lower-case table, and what holds of the Unicode one: a
  lower-cased character is not changed by lower-casing it again and is never a capital
  sigma; U+0020 is mapped to itself; a character that is neither whitespace nor a curly
  quote is mapped to at least one character, none of them whitespace or a curly quote.
\<close>

definition case_table_ok :: "platform \<Rightarrow> bool" where
  "case_table_ok P =
     ((\<forall>c. c \<noteq> 0x3A3 \<longrightarrow> (\<forall>d \<in> set (to_lower_full P c). d \<noteq> 0x3A3 \<and> to_lower_full P d = [d])) \<and>
      to_lower_full P 0x3C2 = [0x3C2] \<and> to_lower_full P 0x3C3 = [0x3C3] \<and>
      to_lower_full P 0x20 = [0x20] \<and>
      (\<forall>c. okc c \<and> c \<noteq> 0x3A3 \<longrightarrow>
           to_lower_full P c \<noteq> [] \<and> (\<forall>d \<in> set (to_lower_full P c). okc d)))"

definition piece :: "platform \<Rightarrow> ustr \<Rightarrow> nat \<Rightarrow> ustr \<Rightarrow> ustr" where
  "piece P seen c cs =
     (if c = 0x3A3 then [handle_capital_sigma P seen cs] else to_lower_full P c)"

definition fixedc :: "platform \<Rightarrow> nat \<Rightarrow> bool" where
  "fixedc P d = (d \<noteq> 0x3A3 \<and> to_lower_full P d = [d])"

section \<open>Example data\<close>

text \<open>
  A platform for the examples: the case tables of Basic Latin and Latin-1, with the two
  code points that have a special lower-casing (U+0130 and U+03A3), every other code point
  unchanged; and documents without markup, whose text is the document itself, stripped.
\<close>

definition latin1_upper :: "nat \<Rightarrow> bool" where
  "latin1_upper c =
     ((0x41 \<le> c \<and> c \<le> 0x5A) \<or> (0xC0 \<le> c \<and> c \<le> 0xD6) \<or> (0xD8 \<le> c \<and> c \<le> 0xDE))"

definition latin1_lower :: "nat \<Rightarrow> ustr" where
  "latin1_lower c =
     (if latin1_upper c then [c + 0x20]
      else if c = 0x130 then [0x69, 0x307]
      else if c = 0x3A3 then [0x3C3]
      else [c])"

definition latin1_cased :: "nat \<Rightarrow> bool" where
  "latin1_cased c =
     ((0x41 \<le> c \<and> c \<le> 0x5A) \<or> (0x61 \<le> c \<and> c \<le> 0x7A) \<or> c = 0xAA \<or> c = 0xB5 \<or>
      c = 0xBA \<or> (0xC0 \<le> c \<and> c \<le> 0xD6) \<or> (0xD8 \<le> c \<and> c \<le> 0xF6) \<or>
      (0xF8 \<le> c \<and> c \<le> 0xFF))"

definition latin1_case_ignorable :: "nat \<Rightarrow> bool" where
  "latin1_case_ignorable c =
     (c = 0x27 \<or> c = 0x2E \<or> c = 0x3A \<or> c = 0x5E \<or> c = 0x60 \<or> c = 0xA8 \<or> c = 0xAD \<or>
      c = 0xAF \<or> c = 0xB4 \<or> c = 0xB7 \<or> c = 0xB8)"

definition latin1 :: platform where
  "latin1 = \<lparr>to_lower_full = latin1_lower, is_cased = latin1_cased,
              is_case_ignorable = latin1_case_ignorable, get_text = py_strip\<rparr>"

text \<open>
  The hash secrets of two processes: the one \<open>PYTHONHASHSEED=0\<close> gives, and the one
  \<open>PYTHONHASHSEED=1\<close> gives.
\<close>

definition seed0 :: hash_secret where
  "seed0 = (0, 0)"

definition seed1 :: hash_secret where
  "seed1 = (12598376723466036009, 16999324916296290386)"

text \<open>
  Answers of the outside for the examples. In \<open>env_ok\<close> everything works: the page is the
  one-letter document \<open>a\<close>, the mail configuration is complete, the SMTP session and the
  write succeed. The others differ from it in one answer.
\<close>

definition env_ok :: cycle_env where
  "env_ok =
     \<lparr>fetch_result = Inr [0x61],
      env_host = Some (u ''smtp.example.org''),
      env_port = Inr 587,
      env_user = Some (u ''me@example.org''),
      env_pass = Some (u ''secret''),
      env_to = Some (u ''you@example.org''),
      smtp_result = SmtpOk,
      write_result = WriteOk,
      os = Posix,
      jitter = 0,
      sleep_cancelled = False\<rparr>"


definition env_smtp_down :: cycle_env where
  "env_smtp_down = env_ok\<lparr>smtp_result := SmtpFailsBeforeSend (u ''Connection refused'')\<rparr>"

definition env_negative :: cycle_env where
  "env_negative = env_ok\<lparr>fetch_result := Inr NEGATIVE_PHRASE_FULL\<rparr>"




definition env_disk_full :: cycle_env where
  "env_disk_full = env_ok\<lparr>write_result := WriteFails (u ''No space left on device'') 3\<rparr>"

text \<open>The world after the start of \<open>main\<close> without a state file.\<close>

definition w_fresh :: world where
  "w_fresh = startup ReadOk None"

text \<open>The world after a first iteration that notified for the document \<open>a\<close>.\<close>

definition w_notified :: world where
  "w_notified = snd (cycle latin1 seed0 env_ok w_fresh)"

section \<open>Normalization\<close>

lemma isspace_20: "isspace 0x20" by (simp add: isspace_def)
lemma okc_not_20: "okc c \<Longrightarrow> c \<noteq> 0x20" by (auto simp: okc_def isspace_def)
lemma okc_not_space: "okc c \<Longrightarrow> \<not> isspace c" by (simp add: okc_def)

lemma pretidy_Cons:
  "pretidy (c # r) = ((c = 0x20 \<and> (r = [] \<or> \<not> isspace (hd r)) \<or> okc c) \<and> pretidy r)"
  by (cases r) auto

lemma dropWhile_hd: "dropWhile Q xs = [] \<or> \<not> Q (hd (dropWhile Q xs))"
  by (induction xs) auto

lemma collapse_ws_hd:
  "xs = [] \<or> \<not> isspace (hd xs) \<Longrightarrow> collapse_ws xs = [] \<or> \<not> isspace (hd (collapse_ws xs))"
  by (cases xs) auto

lemma pretidy_collapse:
  "\<forall>c\<in>set x. c \<noteq> 0x2018 \<and> c \<noteq> 0x2019 \<Longrightarrow> pretidy (collapse_ws x)"
proof (induction x rule: collapse_ws.induct)
  case 1
  show ?case by simp
next
  case (2 c cs)
  show ?case
  proof (cases "isspace c")
    case True
    have sub: "\<forall>c\<in>set (dropWhile isspace cs). c \<noteq> 0x2018 \<and> c \<noteq> 0x2019"
      using "2.prems" by (auto dest: set_dropWhileD)
    have "pretidy (collapse_ws (dropWhile isspace cs))"
      using "2.IH"(1)[OF True sub] .
    moreover have "collapse_ws (dropWhile isspace cs) = [] \<or>
        \<not> isspace (hd (collapse_ws (dropWhile isspace cs)))"
      by (rule collapse_ws_hd) (rule dropWhile_hd)
    ultimately show ?thesis using True by (simp add: pretidy_Cons)
  next
    case False
    have "pretidy (collapse_ws cs)" using "2.IH"(2)[OF False] "2.prems" by simp
    moreover have "okc c" using False "2.prems" by (simp add: okc_def)
    ultimately show ?thesis using False by (simp add: pretidy_Cons)
  qed
qed

lemma pretidy_tl: "pretidy (c # r) \<Longrightarrow> pretidy r"
  by (simp add: pretidy_Cons)

lemma pretidy_dropWhile: "pretidy y \<Longrightarrow> pretidy (dropWhile isspace y)"
  by (induction y) (auto dest: pretidy_tl)

lemma tidy_rstrip:
  "pretidy z \<Longrightarrow> z = [] \<or> \<not> isspace (hd z) \<Longrightarrow> tidy (rstrip z)"
proof (induction z rule: tidy.induct)
  case 1
  show ?case by simp
next
  case (2 c)
  then show ?case by (auto simp: isspace_20)
next
  case (3 c d cs)
  have c: "okc c" "\<not> isspace c" using "3.prems" by (auto simp: isspace_20)
  have pd: "pretidy (d # cs)" using "3.prems"(1) by simp
  show ?case
  proof (cases "d = 0x20")
    case True
    have hd: "cs = [] \<or> \<not> isspace (hd cs)" using pd True by (auto simp: pretidy_Cons okc_def isspace_20)
    have "pretidy cs" using pd by (rule pretidy_tl)
    then have t: "tidy (rstrip cs)" using "3.IH"(1)[OF True] hd by blast
    show ?thesis using c t True by (simp add: isspace_20)
  next
    case False
    then have d: "okc d" "\<not> isspace d" using pd by (auto simp: pretidy_Cons okc_def)
    have "tidy (rstrip (d # cs))" using "3.IH"(2)[OF False pd] d by simp
    then show ?thesis using c d False by simp
  qed
qed

lemma tidy_strip: "pretidy y \<Longrightarrow> tidy (py_strip y)"
  using tidy_rstrip[OF pretidy_dropWhile dropWhile_hd] by (simp add: py_strip_def)

lemma tidy_chars: "tidy s \<Longrightarrow> c \<in> set s \<Longrightarrow> c = 0x20 \<or> okc c"
  by (induction s rule: tidy.induct) (auto split: if_splits)

lemma tidy_hd: "tidy s \<Longrightarrow> s \<noteq> [] \<Longrightarrow> okc (hd s)"
  by (induction s rule: tidy.induct) auto

lemma tidy_replace:
  "tidy s \<Longrightarrow> q \<noteq> 0x20 \<Longrightarrow> \<not> okc q \<Longrightarrow> replace_char q n s = s"
  unfolding replace_char_def by (rule map_idI) (auto dest: tidy_chars)

lemma dropWhile_tidy: "tidy s \<Longrightarrow> dropWhile isspace s = s"
  by (cases s) (auto dest: tidy_hd simp: okc_def)

lemma tidy_collapse: "tidy s \<Longrightarrow> collapse_ws s = s"
  by (induction s rule: tidy.induct)
     (auto simp: okc_def isspace_20 dropWhile_tidy split: if_splits)

lemma tidy_rstrip_id: "tidy s \<Longrightarrow> rstrip s = s"
  by (induction s rule: tidy.induct) (auto simp: okc_def split: if_splits)

lemma tidy_strip_id: "tidy s \<Longrightarrow> py_strip s = s"
  by (simp add: py_strip_def dropWhile_tidy tidy_rstrip_id)

lemma tidy_Cons_okc: "tidy (c # cs) \<Longrightarrow> okc c"
  by (cases cs) auto

lemma not_okc_20: "\<not> okc 0x20"
  by (simp add: okc_def isspace_def)

lemma tidy_append:
  "p \<noteq> [] \<Longrightarrow> \<forall>d\<in>set p. okc d \<Longrightarrow>
   tidy r \<or> (\<exists>r'. r = 0x20 # r' \<and> r' \<noteq> [] \<and> tidy r') \<Longrightarrow> tidy (p @ r)"
proof (induction p)
  case Nil
  then show ?case by simp
next
  case (Cons d p)
  show ?case
  proof (cases p)
    case Nil
    have "okc d" using Cons.prems by simp
    then show ?thesis using Nil Cons.prems(3)
      by (cases r) (auto dest: tidy_Cons_okc okc_not_20 simp: not_okc_20)
  next
    case (Cons d' ps)
    have "tidy (p @ r)" using Cons.IH Cons.prems Cons by simp
    moreover have "okc d" "d' \<noteq> 0x20" using Cons.prems Cons by (auto dest: okc_not_20)
    ultimately show ?thesis using Cons by simp
  qed
qed

lemma sigma_cases: "handle_capital_sigma P seen rest = 0x3C2 \<or> handle_capital_sigma P seen rest = 0x3C3"
  by (simp add: handle_capital_sigma_def split: list.splits)

lemma lower_from_Cons: "lower_from P seen (c # cs) = piece P seen c cs @ lower_from P (c # seen) cs"
  by (simp add: piece_def)

lemma okc_sigma: "okc (handle_capital_sigma P seen rest)"
  using sigma_cases[of P seen rest] by (auto simp: okc_def isspace_def)

lemma table_okc:
  "case_table_ok P \<Longrightarrow> okc c \<Longrightarrow> c \<noteq> 0x3A3 \<Longrightarrow>
   to_lower_full P c \<noteq> [] \<and> (\<forall>d\<in>set (to_lower_full P c). okc d)"
  unfolding case_table_ok_def by blast

lemma table_fixed:
  "case_table_ok P \<Longrightarrow> c \<noteq> 0x3A3 \<Longrightarrow> d \<in> set (to_lower_full P c) \<Longrightarrow>
   d \<noteq> 0x3A3 \<and> to_lower_full P d = [d]"
  unfolding case_table_ok_def by blast

lemma table_consts:
  "case_table_ok P \<Longrightarrow>
   to_lower_full P 0x3C2 = [0x3C2] \<and> to_lower_full P 0x3C3 = [0x3C3] \<and>
   to_lower_full P 0x20 = [0x20]"
  unfolding case_table_ok_def by blast

lemma piece_okc:
  assumes "case_table_ok P" "okc c"
  shows "piece P seen c cs \<noteq> [] \<and> (\<forall>d\<in>set (piece P seen c cs). okc d)"
proof (cases "c = 0x3A3")
  case True
  then show ?thesis by (simp add: piece_def okc_sigma)
next
  case False
  then show ?thesis using table_okc[OF assms False] by (simp add: piece_def)
qed

lemma piece_space: "case_table_ok P \<Longrightarrow> piece P seen 0x20 cs = [0x20]"
  using table_consts[of P] by (simp add: piece_def)

lemma lower_nonempty:
  assumes "case_table_ok P" "t \<noteq> []" "okc (hd t)"
  shows "lower_from P seen t \<noteq> []"
proof (cases t)
  case Nil
  then show ?thesis using assms by simp
next
  case (Cons c cs)
  then have "piece P seen c cs \<noteq> []" using piece_okc[OF assms(1), of c seen cs] assms(3) by simp
  then show ?thesis unfolding Cons lower_from_Cons by simp
qed

lemma tidy_lower:
  "case_table_ok P \<Longrightarrow> tidy t \<Longrightarrow> tidy (lower_from P seen t)"
proof (induction t arbitrary: seen rule: tidy.induct)
  case 1
  show ?case by simp
next
  case (2 c)
  have "tidy (piece P seen c [] @ [])"
    by (rule tidy_append) (use 2 piece_okc in auto)
  then show ?case by (simp add: lower_from_Cons del: lower_from.simps(2))
next
  case (3 c d cs)
  have c: "okc c" using "3.prems" by simp
  have pc: "piece P seen c (d # cs) \<noteq> []" "\<forall>x\<in>set (piece P seen c (d # cs)). okc x"
    using piece_okc[OF "3.prems"(1) c] by auto
  show ?case
  proof (cases "d = 0x20")
    case True
    have cs: "cs \<noteq> []" "tidy cs" using "3.prems" True by auto
    have t: "tidy (lower_from P (d # c # seen) cs)"
      using "3.IH"(1)[OF True "3.prems"(1) cs(2)] .
    have ne: "lower_from P (d # c # seen) cs \<noteq> []"
      using lower_nonempty[OF "3.prems"(1) cs(1)] tidy_hd[OF cs(2) cs(1)] by blast
    have "tidy (piece P seen c (d # cs) @ (0x20 # lower_from P (d # c # seen) cs))"
      by (rule tidy_append) (use pc t ne in auto)
    then show ?thesis
      using True piece_space[OF "3.prems"(1)]
      by (simp add: lower_from_Cons del: lower_from.simps)
  next
    case False
    have "tidy (d # cs)" using "3.prems" False by simp
    then have t: "tidy (lower_from P (c # seen) (d # cs))"
      using "3.IH"(2)[OF False "3.prems"(1)] by blast
    have "tidy (piece P seen c (d # cs) @ lower_from P (c # seen) (d # cs))"
      by (rule tidy_append) (use pc t in auto)
    then show ?thesis by (simp only: lower_from_Cons)
  qed
qed

lemma lower_fixed: "\<forall>d\<in>set r. fixedc P d \<Longrightarrow> lower_from P seen r = r"
  by (induction r arbitrary: seen) (auto simp: fixedc_def)

lemma lower_out_fixed:
  "case_table_ok P \<Longrightarrow> d \<in> set (lower_from P seen t) \<Longrightarrow> fixedc P d"
proof (induction t arbitrary: seen)
  case Nil
  then show ?case by simp
next
  case (Cons c cs)
  from Cons.prems(2) consider "d \<in> set (piece P seen c cs)" | "d \<in> set (lower_from P (c # seen) cs)"
    by (auto simp: lower_from_Cons simp del: lower_from.simps)
  then show ?case
  proof cases
    case 1
    show ?thesis
    proof (cases "c = 0x3A3")
      case True
      then have "d = 0x3C2 \<or> d = 0x3C3"
        using 1 sigma_cases[of P seen cs] by (simp add: piece_def)
      then show ?thesis using table_consts[OF Cons.prems(1)] by (auto simp: fixedc_def)
    next
      case False
      then have "d \<in> set (to_lower_full P c)" using 1 by (simp add: piece_def)
      then show ?thesis using table_fixed[OF Cons.prems(1) False] by (simp add: fixedc_def)
    qed
  next
    case 2
    then show ?thesis using Cons.IH Cons.prems(1) by blast
  qed
qed

lemma tidy_normalize: "case_table_ok P \<Longrightarrow> tidy (normalize_text P s)"
  unfolding normalize_text_def Let_def py_lower_def
  by (intro tidy_lower tidy_strip pretidy_collapse) (auto simp: replace_char_def)

lemma normalize_tidy_fixed:
  assumes "tidy r" "\<forall>d\<in>set r. fixedc P d"
  shows "normalize_text P r = r"
proof -
  have q: "\<not> okc 0xA0" "\<not> okc 0x202F" "\<not> okc 0x2019" "\<not> okc 0x2018"
    by (simp_all add: okc_def isspace_def)
  have r1: "replace_char 0xA0 0x20 r = r" by (rule tidy_replace[OF assms(1) _ q(1)]) simp
  have r2: "replace_char 0x202F 0x20 r = r" by (rule tidy_replace[OF assms(1) _ q(2)]) simp
  have r3: "replace_char 0x2019 0x27 r = r" by (rule tidy_replace[OF assms(1) _ q(3)]) simp
  have r4: "replace_char 0x2018 0x27 r = r" by (rule tidy_replace[OF assms(1) _ q(4)]) simp
  have r5: "collapse_ws r = r" by (rule tidy_collapse[OF assms(1)])
  have r6: "py_strip r = r" by (rule tidy_strip_id[OF assms(1)])
  have r7: "py_lower P r = r" unfolding py_lower_def by (rule lower_fixed[OF assms(2)])
  show ?thesis
    unfolding normalize_text_def Let_def by (simp only: r1 r2 r3 r4 r5 r6 r7)
qed

lemma okc_range: "0x61 \<le> d \<Longrightarrow> d \<le> 0xFE \<Longrightarrow> d \<noteq> 0x85 \<Longrightarrow> d \<noteq> 0xA0 \<Longrightarrow> okc d"
  unfolding okc_def isspace_def by arith

lemma latin1_upper_shift:
  assumes "latin1_upper c"
  shows "0x61 \<le> c + 0x20" "c + 0x20 \<le> 0xFE" "c + 0x20 \<noteq> 0x85" "c + 0x20 \<noteq> 0xA0"
    "\<not> latin1_upper (c + 0x20)" "c + 0x20 \<noteq> 0x130" "c + 0x20 \<noteq> 0x3A3"
  using assms unfolding latin1_upper_def by arith+

lemma latin1_lower_cases:
  "d \<in> set (latin1_lower c) \<Longrightarrow>
   (latin1_upper c \<and> d = c + 0x20) \<or> d = 0x69 \<or> d = 0x307 \<or> d = 0x3C3 \<or>
   (\<not> latin1_upper c \<and> c \<noteq> 0x130 \<and> c \<noteq> 0x3A3 \<and> d = c)"
  by (cases "latin1_upper c") (auto simp: latin1_lower_def split: if_splits)

lemma latin1_lower_consts:
  "latin1_lower 0x69 = [0x69]" "latin1_lower 0x307 = [0x307]" "latin1_lower 0x3C3 = [0x3C3]"
  "latin1_lower 0x3C2 = [0x3C2]" "latin1_lower 0x20 = [0x20]"
  by (simp_all add: latin1_lower_def latin1_upper_def)

lemma okc_consts: "okc 0x69" "okc 0x307" "okc 0x3C3"
  by (simp_all add: okc_def isspace_def)

lemma latin1_lower_okc:
  assumes "okc c" "d \<in> set (latin1_lower c)"
  shows "okc d"
  using latin1_lower_cases[OF assms(2)] assms(1) latin1_upper_shift[of c] okc_consts
  by (auto intro: okc_range)

lemma latin1_lower_fixed:
  assumes "c \<noteq> 0x3A3" "d \<in> set (latin1_lower c)"
  shows "d \<noteq> 0x3A3 \<and> latin1_lower d = [d]"
proof -
  from latin1_lower_cases[OF assms(2)]
  consider "latin1_upper c" "d = c + 0x20" | "d = 0x69" | "d = 0x307" | "d = 0x3C3"
    | "\<not> latin1_upper c" "c \<noteq> 0x130" "c \<noteq> 0x3A3" "d = c"
    by blast
  then show ?thesis
  proof cases
    case 1
    then show ?thesis using latin1_upper_shift[of c] by (simp add: latin1_lower_def)
  next
    case 5
    then show ?thesis by (simp add: latin1_lower_def)
  qed (simp_all add: latin1_lower_consts)
qed

lemma latin1_table_ok: "case_table_ok latin1"
  unfolding case_table_ok_def
proof (intro conjI allI impI ballI)
  fix c d
  assume "c \<noteq> 0x3A3" "d \<in> set (to_lower_full latin1 c)"
  then show "d \<noteq> 0x3A3" "to_lower_full latin1 d = [d]"
    using latin1_lower_fixed[of c d] by (simp_all add: latin1_def)
next
  fix c
  assume "okc c \<and> c \<noteq> 0x3A3"
  show "to_lower_full latin1 c \<noteq> []"
    by (simp add: latin1_def latin1_lower_def)
next
  fix c d
  assume "okc c \<and> c \<noteq> 0x3A3" "d \<in> set (to_lower_full latin1 c)"
  then show "okc d"
    using latin1_lower_okc[of c d] by (simp add: latin1_def)
qed (simp_all add: latin1_def latin1_lower_consts)

text \<open>
  Claim C7. Text normalization is idempotent: normalizing a normalized text changes
  nothing, on every platform whose lower-case table has the properties of
  \<open>case_table_ok\<close>.
\<close>

theorem normalize_text_idempotent:
  "case_table_ok P \<Longrightarrow> normalize_text P (normalize_text P x) = normalize_text P x"
proof -
  assume ok: "case_table_ok P"
  have "\<forall>d\<in>set (normalize_text P x). fixedc P d"
    using lower_out_fixed[OF ok] by (auto simp: normalize_text_def Let_def py_lower_def)
  then show ?thesis using tidy_normalize[OF ok] by (rule normalize_tidy_fixed[rotated])
qed

theorem normalize_text_idempotent_witness:
  "case_table_ok latin1 \<and>
   normalize_text latin1
     (normalize_text latin1 [0xA0, 0x4C, 0x2019, 0x0A, 0x20, 0xC9, 0x54, 0xC9, 0x20, 0x20]) =
   normalize_text latin1 [0xA0, 0x4C, 0x2019, 0x0A, 0x20, 0xC9, 0x54, 0xC9, 0x20, 0x20]"
  using latin1_table_ok normalize_text_idempotent [OF latin1_table_ok] by simp

section \<open>Properties of the classifier\<close>

lemma startswith_iff: "startswith s pat \<longleftrightarrow> (\<exists>post. s = pat @ post)"
  by (induction s pat rule: startswith.induct) auto

lemma py_in_iff: "py_in pat s \<longleftrightarrow> (\<exists>pre post. s = pre @ pat @ post)"
proof (induction s)
  case Nil
  show ?case by auto
next
  case (Cons c cs)
  show ?case
  proof
    assume "py_in pat (c # cs)"
    then consider "startswith (c # cs) pat" | "py_in pat cs" by auto
    then show "\<exists>pre post. c # cs = pre @ pat @ post"
    proof cases
      case 1
      then obtain post where "c # cs = pat @ post" by (auto simp: startswith_iff)
      then have "c # cs = [] @ pat @ post" by simp
      then show ?thesis by blast
    next
      case 2
      then obtain pre post where "cs = pre @ pat @ post" using Cons.IH by blast
      then have "c # cs = (c # pre) @ pat @ post" by simp
      then show ?thesis by blast
    qed
  next
    assume "\<exists>pre post. c # cs = pre @ pat @ post"
    then obtain pre post where e: "c # cs = pre @ pat @ post" by blast
    show "py_in pat (c # cs)"
    proof (cases pre)
      case Nil
      then have "startswith (c # cs) pat" using e by (auto simp: startswith_iff)
      then show ?thesis by simp
    next
      case (Cons d pre')
      then have "cs = pre' @ pat @ post" using e by simp
      then have "py_in pat cs" using Cons.IH by blast
      then show ?thesis by simp
    qed
  qed
qed

text \<open>Evaluation on concrete strings: the right end is stripped in one pass.\<close>

lemma rstrip_once:
  "rstrip (c # cs) =
     (case rstrip cs of [] \<Rightarrow> if isspace c then [] else [c] | d # ds \<Rightarrow> c # d # ds)"
  by (simp split: list.splits)

lemmas latin1_eval =
  normalize_text_def u_def replace_char_def isspace_def py_strip_def py_lower_def
  latin1_def latin1_lower_def latin1_upper_def rstrip_once

lemma neg_norm:
  "normalize_text latin1 NEGATIVE_PHRASE_FULL =
     u ''aucun rendez-vous n'' @ [0x27] @ u ''est actuellement disponible.'' @
     u '' de nouveaux rendez-vous seront propos'' @ [0xE9] @
     u ''s prochainement sur cette page.''"
  by (simp add: latin1_eval NEGATIVE_PHRASE_FULL_def del: rstrip.simps(2))

lemma scenario_A_norm:
  "normalize_text latin1 (get_text latin1 ([0xA0, 0x0A] @ NEGATIVE_PHRASE_FULL @ u ''  Fin'')) =
     normalize_text latin1 NEGATIVE_PHRASE_FULL @ u '' fin''"
  unfolding neg_norm
  by (simp add: latin1_eval NEGATIVE_PHRASE_FULL_def del: rstrip.simps(2))

text \<open>
  Claim C1. For every document, \<open>parse_availability\<close> returns "unavailable" with the
  reason that the exact negative message was detected if and only if the normalized negative
  phrase is a substring of the normalized text extracted from the document; otherwise it
  returns "available" with the reason that the negative phrase is absent.
\<close>

theorem parse_availability_substring:
  "((parse_availability P html = (False, msg_negative)) =
      (\<exists>pre post. normalize_text P (get_text P html) =
         pre @ normalize_text P NEGATIVE_PHRASE_FULL @ post)) \<and>
   ((parse_availability P html = (True, msg_absent)) =
      (\<not> (\<exists>pre post. normalize_text P (get_text P html) =
         pre @ normalize_text P NEGATIVE_PHRASE_FULL @ post)))"
  by (simp add: parse_availability_def Let_def py_in_iff)

theorem parse_availability_substring_witness:
  "parse_availability latin1 ([0xA0, 0x0A] @ NEGATIVE_PHRASE_FULL @ u ''  Fin'') =
     (False, msg_negative)"
proof -
  have "\<exists>pre post.
      normalize_text latin1 (get_text latin1 ([0xA0, 0x0A] @ NEGATIVE_PHRASE_FULL @ u ''  Fin'')) =
      pre @ normalize_text latin1 NEGATIVE_PHRASE_FULL @ post"
    using scenario_A_norm by (intro exI[of _ "[]"] exI[of _ "u '' fin''"]) simp
  then show ?thesis
    using parse_availability_substring
      [of latin1 "[0xA0, 0x0A] @ NEGATIVE_PHRASE_FULL @ u ''  Fin''"]
    by blast
qed

section \<open>One iteration of the loop\<close>

lemma log_fields [simp]:
  "trace (log m w) = trace w @ [Log m]"
  "last_signature (log m w) = last_signature w"
  "state_file (log m w) = state_file w"
  by (simp_all add: log_def)

lemma save_state_fields [simp]:
  "trace (save_state E s w) = trace w"
  "last_signature (save_state E s w) = last_signature w"
  "state_file (save_state E s w) = snd (write_text (os E) (write_result E) s (state_file w))"
  by (simp_all add: save_state_def)

lemma sleep_fields [simp]:
  "last_signature (snd (sleep E w)) = last_signature w"
  "state_file (snd (sleep E w)) = state_file w"
  "trace (snd (sleep E w)) =
     trace w @ [Sleep (if BASE_POLL_SEC + jitter E < 20 then 20 else BASE_POLL_SEC + jitter E)]"
  "fst (sleep E w) = (if sleep_cancelled E then Some Cancelled else None)"
  by (simp_all add: sleep_def Let_def)

lemma sent_append [simp]: "sent (w\<lparr>trace := trace w @ evs\<rparr>) = sent w @ filter is_sendmail evs"
  by (simp add: sent_def)

lemma calls_append [simp]: "calls (w\<lparr>trace := trace w @ evs\<rparr>) = calls w @ filter is_call evs"
  by (simp add: calls_def)

lemma sent_calls_frame [simp]:
  "sent (log m w) = sent w" "calls (log m w) = calls w"
  "sent (save_state E s w) = sent w" "calls (save_state E s w) = calls w"
  "sent (snd (sleep E w)) = sent w" "calls (snd (sleep E w)) = calls w"
  "sent (w\<lparr>last_signature := x\<rparr>) = sent w" "calls (w\<lparr>last_signature := x\<rparr>) = calls w"
  by (simp_all add: sent_def calls_def)

text \<open>The four outcomes of \<open>send_email\<close>.\<close>

lemma send_email_bad_port:
  "env_port E = Inl m \<Longrightarrow>
   send_email E s b w = (Some (Exc m), w\<lparr>trace := trace w @ [SendEmailCalled s b]\<rparr>)"
  by (simp add: send_email_def Let_def)

lemma send_email_incomplete:
  "env_port E = Inr p \<Longrightarrow> \<not> config_complete E p \<Longrightarrow>
   send_email E s b w =
     (None, w\<lparr>trace := trace w @ [SendEmailCalled s b, Log msg_config_incomplete]\<rparr>)"
  by (simp add: send_email_def Let_def log_def)

lemma send_email_smtp:
  "env_port E = Inr p \<Longrightarrow> config_complete E p \<Longrightarrow>
   send_email E s b w =
     (case smtp_result E of
        SmtpFailsBeforeSend m \<Rightarrow> (Some (Exc m), w\<lparr>trace := trace w @ [SendEmailCalled s b]\<rparr>)
      | SmtpFailsAfterSend m \<Rightarrow>
          (Some (Exc m),
           w\<lparr>trace := trace w @
              [SendEmailCalled s b, Sendmail (str_of (env_user E)) (str_of (env_to E)) s b]\<rparr>)
      | SmtpOk \<Rightarrow>
          (None,
           w\<lparr>trace := trace w @
              [SendEmailCalled s b, Sendmail (str_of (env_user E)) (str_of (env_to E)) s b,
               Log msg_email_sent]\<rparr>))"
  by (simp add: send_email_def Let_def log_def split: smtp_outcome.splits)

lemma send_email_shape:
  "\<exists>r evs. send_email E s b w = (r, w\<lparr>trace := trace w @ SendEmailCalled s b # evs\<rparr>) \<and>
      r \<noteq> Some Cancelled \<and> filter is_call evs = [] \<and> filter is_sleep evs = []"
proof (cases "env_port E")
  case (Inl m)
  show ?thesis unfolding send_email_bad_port[OF Inl]
    by (intro exI[of _ "Some (Exc m)"] exI[of _ "[]"]) simp
next
  case (Inr p)
  show ?thesis
  proof (cases "config_complete E p")
    case False
    show ?thesis unfolding send_email_incomplete[OF Inr False]
      by (intro exI[of _ None] exI[of _ "[Log msg_config_incomplete]"]) simp
  next
    case True
    show ?thesis
    proof (cases "smtp_result E")
      case SmtpOk
      show ?thesis unfolding send_email_smtp[OF Inr True] SmtpOk
        by (intro exI[of _ None]
            exI[of _ "[Sendmail (str_of (env_user E)) (str_of (env_to E)) s b, Log msg_email_sent]"])
          simp
    next
      case (SmtpFailsBeforeSend m)
      show ?thesis unfolding send_email_smtp[OF Inr True] SmtpFailsBeforeSend
        by (intro exI[of _ "Some (Exc m)"] exI[of _ "[]"]) simp
    next
      case (SmtpFailsAfterSend m)
      show ?thesis unfolding send_email_smtp[OF Inr True] SmtpFailsAfterSend
        by (intro exI[of _ "Some (Exc m)"]
            exI[of _ "[Sendmail (str_of (env_user E)) (str_of (env_to E)) s b]"]) simp
    qed
  qed
qed

lemma send_email_frame:
  "last_signature (snd (send_email E s b w)) = last_signature w"
  "state_file (snd (send_email E s b w)) = state_file w"
  "calls (snd (send_email E s b w)) = calls w @ [SendEmailCalled s b]"
  "filter is_sleep (trace (snd (send_email E s b w))) = filter is_sleep (trace w)"
  "fst (send_email E s b w) \<noteq> Some Cancelled"
  using send_email_shape[of E s b w] by (auto simp: calls_def)

text \<open>The branches of the body of the loop.\<close>

lemma body_fetch_fails:
  "fetch_result E = Inl e \<Longrightarrow> loop_body P k E w = (Some e, w)"
  by (simp add: loop_body_def)

lemma body_unavailable:
  "fetch_result E = Inr html \<Longrightarrow> \<not> fst (parse_availability P html) \<Longrightarrow>
   loop_body P k E w = (None, log msg_no_availability w)"
  by (simp add: loop_body_def case_prod_beta Let_def)

lemma body_already:
  "fetch_result E = Inr html \<Longrightarrow> fst (parse_availability P html) \<Longrightarrow>
   compute_signature k html = last_signature w \<Longrightarrow>
   loop_body P k E w = (None, log msg_already_signaled w)"
  by (simp add: loop_body_def case_prod_beta Let_def)

lemma body_notify:
  "fetch_result E = Inr html \<Longrightarrow> fst (parse_availability P html) \<Longrightarrow>
   compute_signature k html \<noteq> last_signature w \<Longrightarrow>
   loop_body P k E w =
     (case send_email E alert_subject (alert_body (snd (parse_availability P html))) w of
        (Some e, w1) \<Rightarrow> (Some e, w1)
      | (None, w1) \<Rightarrow>
          (None, (save_state E (compute_signature k html) w1)
                   \<lparr>last_signature := compute_signature k html\<rparr>))"
  by (simp add: loop_body_def case_prod_beta Let_def)

lemma body_notify_raises:
  assumes "fetch_result E = Inr html" "fst (parse_availability P html)"
    "compute_signature k html \<noteq> last_signature w"
    "fst (send_email E alert_subject (alert_body (snd (parse_availability P html))) w) = Some e"
  shows "loop_body P k E w =
    (Some e, snd (send_email E alert_subject (alert_body (snd (parse_availability P html))) w))"
  using assms(4) unfolding body_notify[OF assms(1-3)]
  by (cases "send_email E alert_subject (alert_body (snd (parse_availability P html))) w") simp

lemma body_notify_returns:
  assumes "fetch_result E = Inr html" "fst (parse_availability P html)"
    "compute_signature k html \<noteq> last_signature w"
    "fst (send_email E alert_subject (alert_body (snd (parse_availability P html))) w) = None"
  shows "loop_body P k E w =
    (None, (save_state E (compute_signature k html)
              (snd (send_email E alert_subject (alert_body (snd (parse_availability P html))) w)))
            \<lparr>last_signature := compute_signature k html\<rparr>)"
  using assms(4) unfolding body_notify[OF assms(1-3)]
  by (cases "send_email E alert_subject (alert_body (snd (parse_availability P html))) w") simp

lemma detail_absent: "fst (parse_availability P html) \<Longrightarrow> snd (parse_availability P html) = msg_absent"
  by (simp add: parse_availability_def Let_def split: if_splits)

text \<open>The handler and the sleep.\<close>

lemma cycle_body_returns:
  "loop_body P k E w = (None, w1) \<Longrightarrow> cycle P k E w = sleep E w1"
  by (simp add: cycle_def)

lemma cycle_body_raises:
  "loop_body P k E w = (Some (Exc m), w1) \<Longrightarrow>
   cycle P k E w = sleep E (log (u ''Erreur: '' @ m) w1)"
  by (simp add: cycle_def)

lemma cycle_body_cancelled:
  "loop_body P k E w = (Some Cancelled, w1) \<Longrightarrow> cycle P k E w = (Some Cancelled, w1)"
  by (simp add: cycle_def)

lemma body_cancelled_only_by_fetch:
  assumes "fst (loop_body P k E w) = Some Cancelled"
  shows "fetch_result E = Inl Cancelled"
proof (cases "fetch_result E")
  case (Inl e)
  then show ?thesis using assms by (simp add: body_fetch_fails)
next
  case (Inr html)
  show ?thesis
  proof (cases "fst (parse_availability P html)")
    case False
    then show ?thesis using assms Inr by (simp add: body_unavailable)
  next
    case True
    show ?thesis
    proof (cases "compute_signature k html = last_signature w")
      case True
      then show ?thesis using assms Inr \<open>fst (parse_availability P html)\<close>
        by (simp add: body_already)
    next
      case False
      let ?r = "send_email E alert_subject (alert_body (snd (parse_availability P html))) w"
      have "fst ?r \<noteq> Some Cancelled" by (rule send_email_frame(5))
      then show ?thesis
        using assms unfolding body_notify[OF Inr True False]
        by (cases ?r; cases "fst ?r") auto
    qed
  qed
qed

lemma body_no_sleep:
  "filter is_sleep (trace (snd (loop_body P k E w))) = filter is_sleep (trace w)"
proof (cases "fetch_result E")
  case (Inl e)
  then show ?thesis by (simp add: body_fetch_fails)
next
  case (Inr html)
  show ?thesis
  proof (cases "fst (parse_availability P html)")
    case False
    then show ?thesis using Inr by (simp add: body_unavailable)
  next
    case True
    show ?thesis
    proof (cases "compute_signature k html = last_signature w")
      case True
      then show ?thesis using Inr \<open>fst (parse_availability P html)\<close>
        by (simp add: body_already)
    next
      case False
      let ?r = "send_email E alert_subject (alert_body (snd (parse_availability P html))) w"
      have s: "filter is_sleep (trace (snd ?r)) = filter is_sleep (trace w)"
        by (rule send_email_frame(4))
      show ?thesis
      proof (cases "fst ?r")
        case None
        show ?thesis unfolding body_notify_returns[OF Inr True False None] using s by simp
      next
        case (Some e)
        show ?thesis unfolding body_notify_raises[OF Inr True False Some] using s by simp
      qed
    qed
  qed
qed

section \<open>The examples, evaluated\<close>

text \<open>A rotation is two shifts, which the simplifier computes on numerals.\<close>

lemma rotl64:
  assumes "0 < n" "n < 64"
  shows "word_rotl n (w :: 64 word) = push_bit n w OR drop_bit (64 - n) w"
proof (rule bit_eqI)
  fix m
  assume "possible_bit TYPE(64 word) m"
  then have m: "m < 64" by simp
  have rot: "bit (word_rotl n w) m = bit w ((m + (64 - n)) mod 64)"
    using m assms by (simp add: bit_word_rotl_iff)
  show "bit (word_rotl n w) m = bit (push_bit n w OR drop_bit (64 - n) w) m"
  proof (cases "n \<le> m")
    case True
    have k: "m + (64 - n) = 64 + (m - n)" using True assms by linarith
    have "(m + (64 - n)) mod 64 = (64 + (m - n)) mod 64" by (simp only: k)
    also have "\<dots> = (m - n) mod 64" by (rule mod_add_self1)
    also have "\<dots> = m - n" using m by (intro mod_less) linarith
    finally have e: "(m + (64 - n)) mod 64 = m - n" .
    have "64 \<le> 64 - n + m" using True assms by linarith
    then have "\<not> bit w (64 - n + m)" using bit_imp_le_length[of w "64 - n + m"] by auto
    then show ?thesis using True m
      by (simp only: rot e) (simp add: bit_or_iff bit_push_bit_iff bit_drop_bit_eq)
  next
    case False
    have "m + (64 - n) < 64" using False assms by linarith
    then have "(m + (64 - n)) mod 64 = m + (64 - n)" by (rule mod_less)
    also have "\<dots> = 64 - n + m" by (rule add.commute)
    finally have e: "(m + (64 - n)) mod 64 = 64 - n + m" .
    show ?thesis using False m
      by (simp only: rot e) (simp add: bit_or_iff bit_push_bit_iff bit_drop_bit_eq)
  qed
qed

lemma sip_blocks_short: "length src < 8 \<Longrightarrow> sip_blocks v src = (v, src)"
  by (subst sip_blocks.simps) simp

text \<open>
  The fingerprints of the document \<open>a\<close> under the two secrets and of the document \<open>b\<close>
  under the first, round by round.
\<close>

lemma sip_a0_round1:
  "single_round (8317987319222330741, 7237128888997146477, 7816392313619706465, 8459277849192588562) =
     (7247566780181938652, 18403145855516949703, 4257115380313603538, 3667301059241064010)"
  by (simp add: single_round_def half_round_def Let_def rotl64 push_bit_eq_mult drop_bit_eq_div)

lemma sip_a0_round2:
  "single_round (7319624374219866557, 18403145855516949703, 4257115380313603373, 3667301059241064010) =
     (15677018493505201360, 13911173740966296517, 10797438239901133064, 1031114833424877494)"
  by (simp add: single_round_def half_round_def Let_def rotl64 push_bit_eq_mult drop_bit_eq_div)

lemma sip_a0_round3:
  "single_round (15677018493505201360, 13911173740966296517, 10797438239901133064, 1031114833424877494) =
     (7422582315716714243, 4471147500676966138, 4994854219932227917, 12795702899000259750)"
  by (simp add: single_round_def half_round_def Let_def rotl64 push_bit_eq_mult drop_bit_eq_div)

lemma sip_a0_round4:
  "single_round (7422582315716714243, 4471147500676966138, 4994854219932227917, 12795702899000259750) =
     (1853021402747191456, 13833304034108094220, 11134534554737871928, 8988935689808733063)"
  by (simp add: single_round_def half_round_def Let_def rotl64 push_bit_eq_mult drop_bit_eq_div)

lemma siphash13_a0:
  "siphash13 0 0 [97] = 4644417185603328019"
  by (simp add: siphash13_def sip_blocks_short Let_def push_bit_eq_mult
      sip_a0_round1 sip_a0_round2 sip_a0_round3 sip_a0_round4)

lemma py_hash_a0:
  "py_hash (0, 0) [97] = 4644417185603328019"
  by (simp add: py_hash_def str_bytes_def siphash13_a0)

lemma py_str_a0:
  "py_str (4644417185603328019) = [52, 54, 52, 52, 52, 49, 55, 49, 56, 53, 54, 48, 51, 51, 50, 56, 48, 49, 57]"
  by code_simp

lemma signature_a0:
  "compute_signature (0, 0) [97] = [52, 54, 52, 52, 52, 49, 55, 49, 56, 53, 54, 48, 51, 51, 50, 56, 48, 49, 57]"
  by (simp add: compute_signature_def py_hash_a0 py_str_a0)

lemma sip_a1_round1:
  "single_round (15976802823627949660, 10342175217285988159, 14028444029786214728, 11424752179471054144) =
     (5954788678988047129, 11865186431710434024, 11472351547737359368, 3896568036371363349)"
  by (simp add: single_round_def half_round_def Let_def rotl64 push_bit_eq_mult drop_bit_eq_div)

lemma sip_a1_round2:
  "single_round (6026846273025975160, 11865186431710434024, 11472351547737359607, 3896568036371363349) =
     (11686529057181815313, 6127616507553958295, 13941277482592557309, 2162059752676033604)"
  by (simp add: single_round_def half_round_def Let_def rotl64 push_bit_eq_mult drop_bit_eq_div)

lemma sip_a1_round3:
  "single_round (11686529057181815313, 6127616507553958295, 13941277482592557309, 2162059752676033604) =
     (17133516191470309953, 6831203376063236756, 1774785810611702649, 4393299483499397482)"
  by (simp add: single_round_def half_round_def Let_def rotl64 push_bit_eq_mult drop_bit_eq_div)

lemma sip_a1_round4:
  "single_round (17133516191470309953, 6831203376063236756, 1774785810611702649, 4393299483499397482) =
     (6608062529010366868, 1678713259893877017, 16262397027341862676, 8890344455691147754)"
  by (simp add: single_round_def half_round_def Let_def rotl64 push_bit_eq_mult drop_bit_eq_div)

lemma siphash13_a1:
  "siphash13 12598376723466036009 16999324916296290386 [97] = 15433848885072367219"
  by (simp add: siphash13_def sip_blocks_short Let_def push_bit_eq_mult
      sip_a1_round1 sip_a1_round2 sip_a1_round3 sip_a1_round4)

lemma py_hash_a1:
  "py_hash (12598376723466036009, 16999324916296290386) [97] = - 3012895188637184397"
  by (simp add: py_hash_def str_bytes_def siphash13_a1)

lemma py_str_a1:
  "py_str (- 3012895188637184397) = [45, 51, 48, 49, 50, 56, 57, 53, 49, 56, 56, 54, 51, 55, 49, 56, 52, 51, 57, 55]"
  by code_simp

lemma signature_a1:
  "compute_signature (12598376723466036009, 16999324916296290386) [97] = [45, 51, 48, 49, 50, 56, 57, 53, 49, 56, 56, 54, 51, 55, 49, 56, 52, 51, 57, 55]"
  by (simp add: compute_signature_def py_hash_a1 py_str_a1)









lemma norm_a: "normalize_text latin1 (get_text latin1 [0x61]) = [0x61]"
  by (simp add: latin1_eval del: rstrip.simps(2))


lemma available_a: "parse_availability latin1 [0x61] = (True, msg_absent)"
  unfolding parse_availability_def Let_def neg_norm norm_a by (simp add: u_def)


lemma norm_negative_text:
  "normalize_text latin1 (get_text latin1 NEGATIVE_PHRASE_FULL) =
   normalize_text latin1 NEGATIVE_PHRASE_FULL"
  unfolding neg_norm by (simp add: latin1_eval NEGATIVE_PHRASE_FULL_def del: rstrip.simps(2))

lemma negative_doc: "parse_availability latin1 NEGATIVE_PHRASE_FULL = (False, msg_negative)"
proof -
  have "normalize_text latin1 NEGATIVE_PHRASE_FULL =
      [] @ normalize_text latin1 NEGATIVE_PHRASE_FULL @ []" by simp
  then have "py_in (normalize_text latin1 NEGATIVE_PHRASE_FULL)
      (normalize_text latin1 NEGATIVE_PHRASE_FULL)"
    unfolding py_in_iff by blast
  then show ?thesis by (simp add: parse_availability_def Let_def norm_negative_text)
qed

lemma w_fresh_fields:
  "last_signature w_fresh = []" "state_file w_fresh = None" "trace w_fresh = [Log msg_started]"
  by (simp_all add: w_fresh_def startup_def load_state_def Let_def)

lemma env_ok_complete: "config_complete env_ok 587"
  by (simp add: config_complete_def env_ok_def truthy_def u_def)

section \<open>The laws of the loop\<close>


lemma cycle_completes:
  assumes "fetch_result E \<noteq> Inl Cancelled" "\<not> sleep_cancelled E"
  shows "fst (cycle P k E w) = None"
    and "length (filter is_sleep (trace (snd (cycle P k E w)))) =
         length (filter is_sleep (trace w)) + 1"
proof -
  obtain r w1 where b: "loop_body P k E w = (r, w1)" by (cases "loop_body P k E w")
  have nc: "r \<noteq> Some Cancelled"
    using body_cancelled_only_by_fetch[of P k E w] assms(1) b by auto
  have sl: "filter is_sleep (trace w1) = filter is_sleep (trace w)"
    using body_no_sleep[of P k E w] b by simp
  have "fst (cycle P k E w) = None \<and>
        length (filter is_sleep (trace (snd (cycle P k E w)))) =
        length (filter is_sleep (trace w)) + 1"
  proof (cases r)
    case None
    then show ?thesis using cycle_body_returns[of P k E w w1] b assms(2) sl by simp
  next
    case (Some e)
    then obtain m where "e = Exc m" using nc by (cases e) auto
    then show ?thesis using cycle_body_raises[of P k E w m w1] b Some assms(2) sl by simp
  qed
  then show "fst (cycle P k E w) = None"
    and "length (filter is_sleep (trace (snd (cycle P k E w)))) =
         length (filter is_sleep (trace w)) + 1"
    by simp_all
qed

lemma run_completes:
  "\<forall>E\<in>set Es. fetch_result E \<noteq> Inl Cancelled \<and> \<not> sleep_cancelled E \<Longrightarrow>
   fst (run P k Es w) = None \<and>
   length (filter is_sleep (trace (snd (run P k Es w)))) =
     length (filter is_sleep (trace w)) + length Es"
proof (induction Es arbitrary: w)
  case Nil
  show ?case by simp
next
  case (Cons E Es)
  obtain r w1 where c: "cycle P k E w = (r, w1)" by (cases "cycle P k E w")
  have e: "fetch_result E \<noteq> Inl Cancelled" "\<not> sleep_cancelled E" using Cons.prems by simp_all
  have r: "r = None" using cycle_completes(1)[OF e, of P k w] c by simp
  have n: "length (filter is_sleep (trace w1)) = length (filter is_sleep (trace w)) + 1"
    using cycle_completes(2)[OF e, of P k w] c by simp
  have "fst (run P k Es w1) = None \<and>
        length (filter is_sleep (trace (snd (run P k Es w1)))) =
        length (filter is_sleep (trace w1)) + length Es"
    using Cons.IH Cons.prems by simp
  then show ?case using c r n by simp
qed



text \<open>
  Claim C6. In an iteration whose classification is "unavailable", no notification is
  sent, \<open>send_email\<close> is not called, the state file and \<open>last_signature\<close> are left as
  they are, and the only effects are one log entry and the sleep.
\<close>

theorem unavailable_cycle_only_logs:
  assumes "fetch_result E = Inr html" and "\<not> fst (parse_availability P html)"
  shows "snd (cycle P k E w) =
           w\<lparr>trace := trace w @
              [Log msg_no_availability,
               Sleep (if BASE_POLL_SEC + jitter E < 20 then 20 else BASE_POLL_SEC + jitter E)]\<rparr> \<and>
         sent (snd (cycle P k E w)) = sent w \<and>
         calls (snd (cycle P k E w)) = calls w \<and>
         state_file (snd (cycle P k E w)) = state_file w \<and>
         last_signature (snd (cycle P k E w)) = last_signature w"
proof -
  have c: "cycle P k E w = sleep E (log msg_no_availability w)"
    by (rule cycle_body_returns) (rule body_unavailable[OF assms])
  show ?thesis unfolding c by (simp add: sleep_def log_def Let_def)
qed

theorem unavailable_cycle_only_logs_witness:
  "fetch_result env_negative = Inr NEGATIVE_PHRASE_FULL \<and>
   \<not> fst (parse_availability latin1 NEGATIVE_PHRASE_FULL) \<and>
   snd (cycle latin1 seed0 env_negative w_fresh) =
     w_fresh\<lparr>trace := trace w_fresh @ [Log msg_no_availability, Sleep 45]\<rparr> \<and>
   sent (snd (cycle latin1 seed0 env_negative w_fresh)) = sent w_fresh \<and>
   calls (snd (cycle latin1 seed0 env_negative w_fresh)) = calls w_fresh \<and>
   state_file (snd (cycle latin1 seed0 env_negative w_fresh)) = state_file w_fresh \<and>
   last_signature (snd (cycle latin1 seed0 env_negative w_fresh)) = last_signature w_fresh"
proof -
  have f: "fetch_result env_negative = Inr NEGATIVE_PHRASE_FULL"
    by (simp add: env_negative_def)
  have n: "\<not> fst (parse_availability latin1 NEGATIVE_PHRASE_FULL)"
    by (simp add: negative_doc)
  have j: "(if BASE_POLL_SEC + jitter env_negative < 20 then 20
            else BASE_POLL_SEC + jitter env_negative) = 45"
    by (simp add: BASE_POLL_SEC_def env_negative_def env_ok_def)
  show ?thesis
    using f n unavailable_cycle_only_logs [OF f n, of seed0 w_fresh] unfolding j by simp
qed

lemma cycle_notify_calls:
  assumes "fetch_result E = Inr html" "fst (parse_availability P html)"
    "compute_signature k html \<noteq> last_signature w"
  shows "calls (snd (cycle P k E w)) =
    calls w @ [SendEmailCalled alert_subject (alert_body (snd (parse_availability P html)))]"
proof -
  let ?r = "send_email E alert_subject (alert_body (snd (parse_availability P html))) w"
  have c: "calls (snd ?r) =
      calls w @ [SendEmailCalled alert_subject (alert_body (snd (parse_availability P html)))]"
    by (rule send_email_frame(3))
  show ?thesis
  proof (cases "fst ?r")
    case None
    show ?thesis
      unfolding cycle_body_returns[OF body_notify_returns[OF assms None]] using c by simp
  next
    case (Some e)
    have "e \<noteq> Cancelled" using send_email_frame(5)[of E alert_subject _ w] Some by auto
    then obtain m where e: "e = Exc m" by (cases e) auto
    show ?thesis
      using c cycle_body_raises[OF body_notify_raises[OF assms Some[unfolded e]]] by simp
  qed
qed

lemma cycle_notify_fails:
  assumes "fetch_result E = Inr html" "fst (parse_availability P html)"
    "compute_signature k html \<noteq> last_signature w"
    "fst (send_email E alert_subject (alert_body (snd (parse_availability P html))) w) =
       Some (Exc m)"
  shows "cycle P k E w =
    sleep E (log (u ''Erreur: '' @ m)
      (snd (send_email E alert_subject (alert_body (snd (parse_availability P html))) w)))"
  by (rule cycle_body_raises) (rule body_notify_raises[OF assms])

text \<open>
  Claim C3. Retry law: when the page is classified "available", the fingerprint differs
  from \<open>last_signature\<close> and \<open>send_email\<close> raises, the state file and \<open>last_signature\<close>
  are left as they were, and the next iteration on the same document calls \<open>send_email\<close>
  again.
\<close>

theorem retry_law:
  assumes "fetch_result E = Inr html" and "fst (parse_availability P html)"
    and "compute_signature k html \<noteq> last_signature w"
    and "fst (send_email E alert_subject (alert_body (snd (parse_availability P html))) w) =
           Some (Exc m)"
    and "fetch_result E' = Inr html"
  shows "state_file (snd (cycle P k E w)) = state_file w \<and>
         last_signature (snd (cycle P k E w)) = last_signature w \<and>
         calls (snd (cycle P k E' (snd (cycle P k E w)))) =
           calls (snd (cycle P k E w)) @
             [SendEmailCalled alert_subject (alert_body (snd (parse_availability P html)))]"
proof -
  have c: "cycle P k E w =
    sleep E (log (u ''Erreur: '' @ m)
      (snd (send_email E alert_subject (alert_body (snd (parse_availability P html))) w)))"
    by (rule cycle_notify_fails[OF assms(1-4)])
  have s: "state_file (snd (cycle P k E w)) = state_file w"
    unfolding c by (simp add: send_email_frame)
  have l: "last_signature (snd (cycle P k E w)) = last_signature w"
    unfolding c by (simp add: send_email_frame)
  have d: "compute_signature k html \<noteq> last_signature (snd (cycle P k E w))"
    using assms(3) l by simp
  show ?thesis using s l cycle_notify_calls[OF assms(5) assms(2) d] by simp
qed

lemma env_smtp_down_fails:
  "fst (send_email env_smtp_down s b w) = Some (Exc (u ''Connection refused''))"
proof -
  have p: "env_port env_smtp_down = Inr 587" by (simp add: env_smtp_down_def env_ok_def)
  have c: "config_complete env_smtp_down 587"
    using env_ok_complete by (simp add: config_complete_def env_smtp_down_def)
  show ?thesis
    unfolding send_email_smtp[OF p c] by (simp add: env_smtp_down_def)
qed

lemma signature_a_not_empty: "compute_signature seed0 [0x61] \<noteq> []"
  unfolding seed0_def signature_a0 by simp

theorem retry_law_witness:
  "fetch_result env_smtp_down = Inr [0x61] \<and>
   fst (parse_availability latin1 [0x61]) \<and>
   compute_signature seed0 [0x61] \<noteq> last_signature w_fresh \<and>
   fst (send_email env_smtp_down alert_subject
          (alert_body (snd (parse_availability latin1 [0x61]))) w_fresh) =
     Some (Exc (u ''Connection refused'')) \<and>
   fetch_result env_ok = Inr [0x61] \<and>
   state_file (snd (cycle latin1 seed0 env_smtp_down w_fresh)) = state_file w_fresh \<and>
   last_signature (snd (cycle latin1 seed0 env_smtp_down w_fresh)) = last_signature w_fresh \<and>
   calls (snd (cycle latin1 seed0 env_ok (snd (cycle latin1 seed0 env_smtp_down w_fresh)))) =
     calls (snd (cycle latin1 seed0 env_smtp_down w_fresh)) @
       [SendEmailCalled alert_subject (alert_body (snd (parse_availability latin1 [0x61])))]"
proof -
  have f: "fetch_result env_smtp_down = Inr [0x61]"
    by (simp add: env_smtp_down_def env_ok_def)
  have a: "fst (parse_availability latin1 [0x61])" by (simp add: available_a)
  have d: "compute_signature seed0 [0x61] \<noteq> last_signature w_fresh"
    using signature_a_not_empty by (simp add: w_fresh_fields)
  have e: "fst (send_email env_smtp_down alert_subject
          (alert_body (snd (parse_availability latin1 [0x61]))) w_fresh) =
     Some (Exc (u ''Connection refused''))"
    by (rule env_smtp_down_fails)
  have f': "fetch_result env_ok = Inr [0x61]" by (simp add: env_ok_def)
  show ?thesis using f a d e f' retry_law [OF f a d e f'] by blast
qed

lemma notify_returns_fields:
  assumes "fetch_result E = Inr html" "fst (parse_availability P html)"
    "compute_signature k html \<noteq> last_signature w"
    "fst (send_email E alert_subject (alert_body (snd (parse_availability P html))) w) = None"
  shows "last_signature (snd (cycle P k E w)) = compute_signature k html"
    and "sent (snd (cycle P k E w)) =
         sent (snd (send_email E alert_subject (alert_body (snd (parse_availability P html))) w))"
    and "state_file (snd (cycle P k E w)) =
         snd (write_text (os E) (write_result E) (compute_signature k html) (state_file w))"
    and "fst (cycle P k E w) = (if sleep_cancelled E then Some Cancelled else None)"
  unfolding cycle_body_returns[OF body_notify_returns[OF assms]]
  by (simp_all add: send_email_frame)

lemma already_fields:
  assumes "fetch_result E = Inr html" "fst (parse_availability P html)"
    "compute_signature k html = last_signature w"
  shows "last_signature (snd (cycle P k E w)) = last_signature w"
    and "sent (snd (cycle P k E w)) = sent w"
    and "calls (snd (cycle P k E w)) = calls w"
    and "state_file (snd (cycle P k E w)) = state_file w"
    and "fst (cycle P k E w) = (if sleep_cancelled E then Some Cancelled else None)"
  unfolding cycle_body_returns[OF body_already[OF assms]]
  by simp_all

lemma body_returns_sets_signature:
  assumes "fetch_result E = Inr html" "fst (parse_availability P html)"
    "fst (loop_body P k E w) = None"
  shows "last_signature (snd (cycle P k E w)) = compute_signature k html"
proof (cases "compute_signature k html = last_signature w")
  case True
  then show ?thesis using already_fields(1)[OF assms(1,2) True] by simp
next
  case False
  let ?r = "send_email E alert_subject (alert_body (snd (parse_availability P html))) w"
  have "fst ?r = None"
  proof (cases "fst ?r")
    case None
    then show ?thesis .
  next
    case (Some e)
    then show ?thesis using assms(3) body_notify_raises[OF assms(1,2) False Some] by simp
  qed
  then show ?thesis by (rule notify_returns_fields(1)[OF assms(1,2) False])
qed

lemma send_email_delivers:
  assumes "env_port E = Inr p" "config_complete E p" "smtp_result E = SmtpOk"
  shows "fst (send_email E s b w) = None"
    and "sent (snd (send_email E s b w)) =
         sent w @ [Sendmail (str_of (env_user E)) (str_of (env_to E)) s b]"
  unfolding send_email_smtp[OF assms(1,2)] assms(3) by simp_all




lemma fetch_fails_fields:
  assumes "fetch_result E = Inl e"
  shows "last_signature (snd (cycle P k E w)) = last_signature w"
    and "sent (snd (cycle P k E w)) = sent w"
    and "calls (snd (cycle P k E w)) = calls w"
proof -
  have b: "loop_body P k E w = (Some e, w)" by (rule body_fetch_fails[OF assms])
  have "last_signature (snd (cycle P k E w)) = last_signature w \<and>
        sent (snd (cycle P k E w)) = sent w \<and> calls (snd (cycle P k E w)) = calls w"
  proof (cases e)
    case (Exc m)
    show ?thesis unfolding cycle_body_raises[OF b[unfolded Exc]] by simp
  next
    case Cancelled
    show ?thesis unfolding cycle_body_cancelled[OF b[unfolded Cancelled]] by simp
  qed
  then show "last_signature (snd (cycle P k E w)) = last_signature w"
    and "sent (snd (cycle P k E w)) = sent w"
    and "calls (snd (cycle P k E w)) = calls w"
    by simp_all
qed

lemma unavailable_fields:
  assumes "fetch_result E = Inr html" "\<not> fst (parse_availability P html)"
  shows "last_signature (snd (cycle P k E w)) = last_signature w"
    and "sent (snd (cycle P k E w)) = sent w"
    and "calls (snd (cycle P k E w)) = calls w"
  unfolding cycle_body_returns[OF body_unavailable[OF assms]] by simp_all

text \<open>
  An iteration that does not see a new fingerprint sends nothing and keeps
  \<open>last_signature\<close>; so does any number of them.
\<close>

lemma quiet_cycle:
  assumes "\<forall>h. fetch_result E = Inr h \<longrightarrow> compute_signature k h = last_signature w"
  shows "last_signature (snd (cycle P k E w)) = last_signature w \<and>
         sent (snd (cycle P k E w)) = sent w \<and> calls (snd (cycle P k E w)) = calls w"
proof (cases "fetch_result E")
  case (Inl e)
  show ?thesis using fetch_fails_fields[OF Inl, of P k w] by simp
next
  case (Inr h)
  then have s: "compute_signature k h = last_signature w" using assms by simp
  show ?thesis
  proof (cases "fst (parse_availability P h)")
    case True
    show ?thesis using already_fields(1-3)[OF Inr True s] by simp
  next
    case False
    show ?thesis using unavailable_fields[OF Inr False, of k w] by simp
  qed
qed

lemma quiet_run:
  "\<forall>E\<in>set Es. \<forall>h. fetch_result E = Inr h \<longrightarrow> compute_signature k h = last_signature w \<Longrightarrow>
   last_signature (snd (run P k Es w)) = last_signature w \<and>
   sent (snd (run P k Es w)) = sent w \<and> calls (snd (run P k Es w)) = calls w"
proof (induction Es arbitrary: w)
  case Nil
  show ?case by simp
next
  case (Cons E Es)
  have q: "last_signature (snd (cycle P k E w)) = last_signature w \<and>
      sent (snd (cycle P k E w)) = sent w \<and> calls (snd (cycle P k E w)) = calls w"
    by (rule quiet_cycle) (use Cons.prems in simp)
  obtain r w1 where c: "cycle P k E w = (r, w1)" by (cases "cycle P k E w")
  have w1: "last_signature w1 = last_signature w" "sent w1 = sent w" "calls w1 = calls w"
    using q c by simp_all
  show ?case
  proof (cases r)
    case (Some e)
    then show ?thesis using c w1 by simp
  next
    case None
    have "last_signature (snd (run P k Es w1)) = last_signature w1 \<and>
        sent (snd (run P k Es w1)) = sent w1 \<and> calls (snd (run P k Es w1)) = calls w1"
      by (rule Cons.IH) (use Cons.prems w1 in simp)
    then show ?thesis using c None w1 by simp
  qed
qed

text \<open>
  Claim C2, as amended. Dedup law: of two consecutive iterations classified "available"
  with the same fingerprint, when the body of the first ends without an exception, the
  second finds its fingerprint equal to \<open>last_signature\<close>, does not call \<open>send_email\<close>
  and sends nothing. Exactly one notification is sent across the two iterations when,
  in addition, the fingerprint differs from \<open>last_signature\<close> before the first one and
  its \<open>send_email\<close> delivers (the port is a number, the configuration is complete, the
  SMTP session succeeds); none is sent when the fingerprint already equals
  \<open>last_signature\<close> before the first one.
\<close>

theorem dedup_law:
  assumes "fetch_result E1 = Inr h1" and "fetch_result E2 = Inr h2"
    and "fst (parse_availability P h1)" and "fst (parse_availability P h2)"
    and "compute_signature k h1 = compute_signature k h2"
    and "fst (loop_body P k E1 w) = None"
  shows "sent (snd (cycle P k E2 (snd (cycle P k E1 w)))) = sent (snd (cycle P k E1 w)) \<and>
         calls (snd (cycle P k E2 (snd (cycle P k E1 w)))) = calls (snd (cycle P k E1 w)) \<and>
         (compute_signature k h1 \<noteq> last_signature w \<and> env_port E1 = Inr p \<and>
          config_complete E1 p \<and> smtp_result E1 = SmtpOk \<longrightarrow>
            sent (snd (cycle P k E2 (snd (cycle P k E1 w)))) =
              sent w @ [Sendmail (str_of (env_user E1)) (str_of (env_to E1)) alert_subject
                          (alert_body (snd (parse_availability P h1)))]) \<and>
         (compute_signature k h1 = last_signature w \<longrightarrow>
            sent (snd (cycle P k E2 (snd (cycle P k E1 w)))) = sent w)"
proof -
  let ?w1 = "snd (cycle P k E1 w)"
  have l: "last_signature ?w1 = compute_signature k h1"
    by (rule body_returns_sets_signature[OF assms(1,3,6)])
  have e: "compute_signature k h2 = last_signature ?w1" using l assms(5) by simp
  have s2: "sent (snd (cycle P k E2 ?w1)) = sent ?w1"
    and c2: "calls (snd (cycle P k E2 ?w1)) = calls ?w1"
    using already_fields(2,3)[OF assms(2,4) e] by simp_all
  have one: "sent ?w1 =
      sent w @ [Sendmail (str_of (env_user E1)) (str_of (env_to E1)) alert_subject
                  (alert_body (snd (parse_availability P h1)))]"
    if d: "compute_signature k h1 \<noteq> last_signature w" and p: "env_port E1 = Inr p"
      and c: "config_complete E1 p" and ok: "smtp_result E1 = SmtpOk"
    using notify_returns_fields(2)[OF assms(1,3) d send_email_delivers(1)[OF p c ok]]
      send_email_delivers(2)[OF p c ok] by simp
  have none: "sent ?w1 = sent w" if "compute_signature k h1 = last_signature w"
    by (rule already_fields(2)[OF assms(1,3) that])
  show ?thesis using s2 c2 one none by simp
qed

lemma env_ok_delivers:
  "env_port env_ok = Inr 587" "config_complete env_ok 587" "smtp_result env_ok = SmtpOk"
  "fetch_result env_ok = Inr [0x61]" "\<not> sleep_cancelled env_ok"
  using env_ok_complete by (simp_all add: env_ok_def)

lemma first_body_returns: "fst (loop_body latin1 seed0 env_ok w_fresh) = None"
proof -
  have a: "fst (parse_availability latin1 [0x61])" by (simp add: available_a)
  have d: "compute_signature seed0 [0x61] \<noteq> last_signature w_fresh"
    using signature_a_not_empty by (simp add: w_fresh_fields)
  show ?thesis
    unfolding body_notify_returns[OF env_ok_delivers(4) a d
        send_email_delivers(1)[OF env_ok_delivers(1-3)]]
    by simp
qed

theorem dedup_law_witness:
  "fetch_result env_ok = Inr [0x61] \<and> fst (parse_availability latin1 [0x61]) \<and>
   fst (loop_body latin1 seed0 env_ok w_fresh) = None \<and>
   compute_signature seed0 [0x61] \<noteq> last_signature w_fresh \<and>
   env_port env_ok = Inr 587 \<and> config_complete env_ok 587 \<and> smtp_result env_ok = SmtpOk \<and>
   sent (snd (cycle latin1 seed0 env_ok (snd (cycle latin1 seed0 env_ok w_fresh)))) =
     sent w_fresh @ [Sendmail (str_of (env_user env_ok)) (str_of (env_to env_ok)) alert_subject
                       (alert_body (snd (parse_availability latin1 [0x61])))] \<and>
   calls (snd (cycle latin1 seed0 env_ok (snd (cycle latin1 seed0 env_ok w_fresh)))) =
     calls (snd (cycle latin1 seed0 env_ok w_fresh))"
proof -
  have a: "fst (parse_availability latin1 [0x61])" by (simp add: available_a)
  have d: "compute_signature seed0 [0x61] \<noteq> last_signature w_fresh"
    using signature_a_not_empty by (simp add: w_fresh_fields)
  show ?thesis
    using a d env_ok_delivers first_body_returns
      dedup_law [OF env_ok_delivers(4) env_ok_delivers(4) a a refl first_body_returns, of 587]
    by blast
qed

lemma w_notified_fields:
  "last_signature w_notified = compute_signature seed0 [0x61]"
  "sent w_notified =
     [Sendmail (str_of (env_user env_ok)) (str_of (env_to env_ok)) alert_subject
        (alert_body msg_absent)]"
proof -
  have a: "fst (parse_availability latin1 [0x61])" by (simp add: available_a)
  have d: "compute_signature seed0 [0x61] \<noteq> last_signature w_fresh"
    using signature_a_not_empty by (simp add: w_fresh_fields)
  have n: "fst (send_email env_ok alert_subject
      (alert_body (snd (parse_availability latin1 [0x61]))) w_fresh) = None"
    by (rule send_email_delivers(1)[OF env_ok_delivers(1-3)])
  show "last_signature w_notified = compute_signature seed0 [0x61]"
    unfolding w_notified_def by (rule notify_returns_fields(1)[OF env_ok_delivers(4) a d n])
  show "sent w_notified =
     [Sendmail (str_of (env_user env_ok)) (str_of (env_to env_ok)) alert_subject
        (alert_body msg_absent)]"
    unfolding w_notified_def
    using notify_returns_fields(2)[OF env_ok_delivers(4) a d n]
      send_email_delivers(2)[OF env_ok_delivers(1-3), of alert_subject
        "alert_body (snd (parse_availability latin1 [0x61]))" w_fresh]
    by (simp add: available_a sent_def w_fresh_fields)
qed

text \<open>
  Claim C2 as stated fails on the second and third of three polls of the same available
  page: both are classified "available", their fingerprints are identical, and no
  notification is sent across the two.
\<close>

theorem dedup_law_counterexample:
  "fetch_result env_ok = Inr [0x61] \<and> fst (parse_availability latin1 [0x61]) \<and>
   fst (run latin1 seed0 [env_ok, env_ok] w_notified) = None \<and>
   sent (snd (run latin1 seed0 [env_ok, env_ok] w_notified)) = sent w_notified \<and>
   length (sent (snd (run latin1 seed0 [env_ok, env_ok] w_notified))) \<noteq>
     length (sent w_notified) + 1"
proof -
  have a: "fst (parse_availability latin1 [0x61])" by (simp add: available_a)
  have q: "\<forall>E\<in>set [env_ok, env_ok]. \<forall>h. fetch_result E = Inr h \<longrightarrow>
      compute_signature seed0 h = last_signature w_notified"
    by (simp add: env_ok_def w_notified_fields)
  have s: "sent (snd (run latin1 seed0 [env_ok, env_ok] w_notified)) = sent w_notified"
    using quiet_run[OF q, of latin1] by simp
  have r: "fst (run latin1 seed0 [env_ok, env_ok] w_notified) = None"
    using run_completes[of "[env_ok, env_ok]" latin1 seed0 w_notified]
    by (simp add: env_ok_def)
  show ?thesis using a s r env_ok_delivers(4) by simp
qed







section \<open>The state file\<close>

lemma universal_newlines_Cons:
  "c \<noteq> 0x0D \<Longrightarrow> universal_newlines (c # cs) = c # universal_newlines cs"
  by (cases cs) simp_all


lemma to_disk_no_newline: "0x0A \<notin> set s \<Longrightarrow> to_disk f s = s"
  by (induction s) (auto simp: to_disk_def)

lemma rstrip_id: "s \<noteq> [] \<Longrightarrow> \<not> isspace (last s) \<Longrightarrow> rstrip s = s"
  by (induction s) (auto split: if_splits)

lemma py_strip_id:
  assumes "s = [] \<or> (\<not> isspace (hd s) \<and> \<not> isspace (last s))"
  shows "py_strip s = s"
proof (cases s)
  case Nil
  then show ?thesis by (simp add: py_strip_def)
next
  case (Cons c cs)
  then have h: "\<not> isspace c" and l: "\<not> isspace (last s)" using assms by auto
  have "dropWhile isspace s = s" using Cons h by simp
  moreover have "rstrip s = s" by (rule rstrip_id) (use Cons l in auto)
  ultimately show ?thesis by (simp add: py_strip_def)
qed

lemma write_text_succeeds:
  "fst (write_text f wo s file) = None \<Longrightarrow> write_text f wo s file = (None, Some (to_disk f s))"
  by (cases wo) (auto simp: write_text_def split: if_splits)

text \<open>
  Claim C8, as amended. \<open>save_state\<close> replaces the state file by the given fingerprint
  when the write succeeds; when the write fails it raises nothing and logs nothing; the
  write is not atomic: the file is emptied when it is opened, so a failure after that leaves
  an empty or cut-off value, and only a failure to open leaves the old one.
\<close>

theorem save_state_behaviour:
  "trace (save_state E s w) = trace w \<and>
   last_signature (save_state E s w) = last_signature w \<and>
   (fst (write_text (os E) (write_result E) s (state_file w)) = None \<longrightarrow>
      state_file (save_state E s w) = Some (to_disk (os E) s)) \<and>
   (0x0A \<notin> set s \<longrightarrow> to_disk (os E) s = s) \<and>
   (write_result E = OpenFails m \<longrightarrow> state_file (save_state E s w) = state_file w) \<and>
   (write_result E = WriteFails m n \<and> \<not> list_ex is_surrogate s \<longrightarrow>
      state_file (save_state E s w) = Some (take n (to_disk (os E) s))) \<and>
   ((write_result E = WriteOk \<or> write_result E = WriteFails m n) \<and> list_ex is_surrogate s \<longrightarrow>
      state_file (save_state E s w) = Some [])"
proof (intro conjI impI)
  show "trace (save_state E s w) = trace w" by simp
  show "last_signature (save_state E s w) = last_signature w" by simp
  show "state_file (save_state E s w) = Some (to_disk (os E) s)"
    if "fst (write_text (os E) (write_result E) s (state_file w)) = None"
    using write_text_succeeds[OF that] by simp
  show "to_disk (os E) s = s" if "0x0A \<notin> set s"
    using that by (rule to_disk_no_newline)
  show "state_file (save_state E s w) = state_file w" if "write_result E = OpenFails m"
    using that by (simp add: write_text_def)
  show "state_file (save_state E s w) = Some (take n (to_disk (os E) s))"
    if "write_result E = WriteFails m n \<and> \<not> list_ex is_surrogate s"
    using that by (simp add: write_text_def)
  show "state_file (save_state E s w) = Some []"
    if "(write_result E = WriteOk \<or> write_result E = WriteFails m n) \<and> list_ex is_surrogate s"
    using that by (auto simp: write_text_def)
qed

lemma digits_12345_to_disk: "to_disk Posix [0x31, 0x32, 0x33, 0x34, 0x35] = [0x31, 0x32, 0x33, 0x34, 0x35]"
  by (rule to_disk_no_newline) simp

theorem save_state_behaviour_witness:
  "write_result env_disk_full = WriteFails (u ''No space left on device'') 3 \<and>
   \<not> list_ex is_surrogate [0x31, 0x32, 0x33, 0x34, 0x35] \<and>
   0x0A \<notin> set [0x31, 0x32, 0x33, 0x34, 0x35 :: nat] \<and>
   trace (save_state env_disk_full [0x31, 0x32, 0x33, 0x34, 0x35] w_fresh) = trace w_fresh \<and>
   state_file (save_state env_disk_full [0x31, 0x32, 0x33, 0x34, 0x35] w_fresh) =
     Some (take 3 (to_disk (os env_disk_full) [0x31, 0x32, 0x33, 0x34, 0x35])) \<and>
   to_disk (os env_disk_full) [0x31, 0x32, 0x33, 0x34, 0x35] = [0x31, 0x32, 0x33, 0x34, 0x35]"
proof -
  have r: "write_result env_disk_full = WriteFails (u ''No space left on device'') 3"
    by (simp add: env_disk_full_def)
  have n: "\<not> list_ex is_surrogate [0x31, 0x32, 0x33, 0x34, 0x35]"
    by (simp add: is_surrogate_def)
  have l: "0x0A \<notin> set [0x31, 0x32, 0x33, 0x34, 0x35 :: nat]" by simp
  show ?thesis
    using r n l
      save_state_behaviour [where E = env_disk_full and s = "[0x31, 0x32, 0x33, 0x34, 0x35]"
        and w = w_fresh and m = "u ''No space left on device''" and n = 3]
    by blast
qed

text \<open>
  Claim C8 as stated fails when the disk fills up during the write: nothing is logged, and
  the file holds the first three characters of the new value, which is neither the old
  value nor the new one.
\<close>

theorem save_state_counterexample:
  "write_result env_disk_full = WriteFails (u ''No space left on device'') 3 \<and>
   trace (save_state env_disk_full [0x31, 0x32, 0x33, 0x34, 0x35]
            (w_fresh\<lparr>state_file := Some [0x39, 0x39, 0x39]\<rparr>)) = trace w_fresh \<and>
   filter is_log (trace w_fresh) = [Log msg_started] \<and>
   state_file (save_state env_disk_full [0x31, 0x32, 0x33, 0x34, 0x35]
            (w_fresh\<lparr>state_file := Some [0x39, 0x39, 0x39]\<rparr>)) = Some [0x31, 0x32, 0x33]"
  by (simp add: env_disk_full_def env_ok_def write_text_def is_surrogate_def
      digits_12345_to_disk w_fresh_fields)


lemma signature_a0_text: "compute_signature seed0 [0x61] = u ''4644417185603328019''"
  unfolding seed0_def signature_a0 by (simp add: u_def)

lemma signature_a1_text: "compute_signature seed1 [0x61] = u ''-3012895188637184397''"
  unfolding seed1_def signature_a1 by (simp add: u_def)

lemma signature_a0_shape:
  "compute_signature seed0 [0x61] = [] \<or>
     (\<not> isspace (hd (compute_signature seed0 [0x61])) \<and>
      \<not> isspace (last (compute_signature seed0 [0x61])))"
  "0x0D \<notin> set (compute_signature seed0 [0x61])"
  "\<not> list_ex is_surrogate (compute_signature seed0 [0x61])"
  unfolding seed0_def signature_a0 by (simp_all add: isspace_def is_surrogate_def)



section \<open>The fingerprint across processes\<close>

text \<open>
  Within one process the fingerprint is a function of the first 50000 characters of the
  document.
\<close>

lemma fingerprint_prefix_determined:
  "take 50000 a = take 50000 b \<Longrightarrow> compute_signature k a = compute_signature k b"
  by (simp add: compute_signature_def)

lemma universal_newlines_id: "0x0D \<notin> set s \<Longrightarrow> universal_newlines s = s"
  by (induction s) (simp_all add: universal_newlines_Cons)

lemma w_notified_file: "state_file w_notified = Some (compute_signature seed0 [0x61])"
proof -
  have a: "fst (parse_availability latin1 [0x61])" by (simp add: available_a)
  have d: "compute_signature seed0 [0x61] \<noteq> last_signature w_fresh"
    using signature_a_not_empty by (simp add: w_fresh_fields)
  have n: "fst (send_email env_ok alert_subject
      (alert_body (snd (parse_availability latin1 [0x61]))) w_fresh) = None"
    by (rule send_email_delivers(1)[OF env_ok_delivers(1-3)])
  have nl: "0x0A \<notin> set (compute_signature seed0 [0x61])"
    unfolding seed0_def signature_a0 by simp
  have "state_file w_notified =
      snd (write_text (os env_ok) (write_result env_ok) (compute_signature seed0 [0x61])
             (state_file w_fresh))"
    unfolding w_notified_def by (rule notify_returns_fields(3)[OF env_ok_delivers(4) a d n])
  also have "\<dots> = Some (to_disk Posix (compute_signature seed0 [0x61]))"
    using signature_a0_shape(3) by (simp add: write_text_def env_ok_def)
  also have "\<dots> = Some (compute_signature seed0 [0x61])"
    by (simp add: to_disk_no_newline[OF nl])
  finally show ?thesis .
qed

lemma restart_fields:
  "last_signature (startup ReadOk (Some (compute_signature seed0 [0x61]))) =
     compute_signature seed0 [0x61]"
  "calls (startup ReadOk (Some (compute_signature seed0 [0x61]))) = []"
  by (simp_all add: startup_def Let_def load_state_def log_def calls_def
      universal_newlines_id[OF signature_a0_shape(2)] py_strip_id[OF signature_a0_shape(1)])

lemma signature_a_seeds: "compute_signature seed1 [0x61] \<noteq> compute_signature seed0 [0x61]"
  unfolding seed0_def seed1_def signature_a0 signature_a1 by simp

text \<open>
  Claim C4. The claim holds within one process and fails across a restart, against the
  purpose of the state file: the document \<open>a\<close> has one fingerprint in a process started
  with \<open>PYTHONHASHSEED=0\<close> and another in a process started with \<open>PYTHONHASHSEED=1\<close>
  (any two processes without the variable draw different secrets as well). A process
  that reads the state file written by the first, on the same page, finds a fingerprint
  that differs from the persisted one and calls \<open>send_email\<close> again.
\<close>

theorem fingerprint_differs_across_restarts:
  "compute_signature seed0 [0x61] = u ''4644417185603328019'' \<and>
   compute_signature seed1 [0x61] = u ''-3012895188637184397'' \<and>
   take 50000 [0x61 :: nat] = take 50000 [0x61] \<and>
   compute_signature seed1 [0x61] \<noteq> compute_signature seed0 [0x61] \<and>
   state_file w_notified = Some (compute_signature seed0 [0x61]) \<and>
   last_signature (startup ReadOk (state_file w_notified)) = compute_signature seed0 [0x61] \<and>
   calls (snd (cycle latin1 seed1 env_ok (startup ReadOk (state_file w_notified)))) =
     [SendEmailCalled alert_subject (alert_body msg_absent)]"
proof -
  have a: "fst (parse_availability latin1 [0x61])" by (simp add: available_a)
  have d: "compute_signature seed1 [0x61] \<noteq>
      last_signature (startup ReadOk (Some (compute_signature seed0 [0x61])))"
    using signature_a_seeds by (simp add: restart_fields)
  have c: "calls (snd (cycle latin1 seed1 env_ok
        (startup ReadOk (Some (compute_signature seed0 [0x61]))))) =
      [SendEmailCalled alert_subject (alert_body msg_absent)]"
    using cycle_notify_calls[OF env_ok_delivers(4) a d]
    by (simp add: restart_fields available_a)
  have l: "last_signature (startup ReadOk (state_file w_notified)) =
      compute_signature seed0 [0x61]"
    unfolding w_notified_file by (rule restart_fields(1))
  have c': "calls (snd (cycle latin1 seed1 env_ok (startup ReadOk (state_file w_notified)))) =
      [SendEmailCalled alert_subject (alert_body msg_absent)]"
    unfolding w_notified_file by (rule c)
  show ?thesis
    by (intro conjI signature_a0_text signature_a1_text signature_a_seeds w_notified_file l c'
        refl)
qed

end
